theory Spec2Isabelle
  imports Main "HOL-Library.List_Lexorder"
begin

section \<open>Text and cell values\<close>

text \<open>
  A Python \<open>str\<close> is a sequence of Unicode code points, compared and sorted code point by
  code point; it is modelled as a list of naturals with the lexicographic order.
  \<open>lit\<close> writes a literal of the source.
\<close>

type_synonym ustr = "nat list"

definition lit :: "string \<Rightarrow> ustr" where
  "lit s = map of_char s"

text \<open>
  The character tables of the interpreter. \<open>is_space\<close> is the full whitespace table of
  \<open>str.strip()\<close>. The case tables are written out for Basic Latin (below 128) and for the two
  code points U+0130 (capital I with dot above, 304) and U+0307 (combining dot above, 775);
  they leave every other code point unchanged and uncased, so statements that depend on
  case mapping are made for texts over the tabulated code points only.
\<close>

definition is_space :: "nat \<Rightarrow> bool" where
  "is_space c = ((9 \<le> c \<and> c \<le> 13) \<or> (28 \<le> c \<and> c \<le> 32) \<or> c = 133 \<or> c = 160
     \<or> c = 5760 \<or> (8192 \<le> c \<and> c \<le> 8202) \<or> c = 8232 \<or> c = 8233 \<or> c = 8239
     \<or> c = 8287 \<or> c = 12288)"

definition is_upper_latin :: "nat \<Rightarrow> bool" where
  "is_upper_latin c = (65 \<le> c \<and> c \<le> 90)"

definition is_lower_latin :: "nat \<Rightarrow> bool" where
  "is_lower_latin c = (97 \<le> c \<and> c \<le> 122)"

definition is_cased :: "nat \<Rightarrow> bool" where
  "is_cased c = (is_upper_latin c \<or> is_lower_latin c \<or> c = 304)"

definition to_title_full :: "nat \<Rightarrow> ustr" where
  "to_title_full c = (if is_lower_latin c then [c - 32] else [c])"

definition to_lower_full :: "nat \<Rightarrow> ustr" where
  "to_lower_full c =
     (if is_upper_latin c then [c + 32] else if c = 304 then [105, 775] else [c])"

definition to_upper_full :: "nat \<Rightarrow> ustr" where
  "to_upper_full c = (if is_lower_latin c then [c - 32] else [c])"

text \<open>\<open>str.strip()\<close>: leading and trailing whitespace removed.\<close>

definition strip :: "ustr \<Rightarrow> ustr" where
  "strip s = rev (dropWhile is_space (rev (dropWhile is_space s)))"

text \<open>
  \<open>str.title()\<close>: one pass, left to right; a character that follows a cased character is
  lower-cased, any other is title-cased.
\<close>

fun do_title :: "bool \<Rightarrow> ustr \<Rightarrow> ustr" where
  "do_title previous_is_cased [] = []"
| "do_title previous_is_cased (c # cs) =
     (if previous_is_cased then to_lower_full c else to_title_full c) @ do_title (is_cased c) cs"

definition title :: "ustr \<Rightarrow> ustr" where
  "title s = do_title False s"

definition upper :: "ustr \<Rightarrow> ustr" where
  "upper s = concat (map to_upper_full s)"

text \<open>
  A spreadsheet cell, or an argument of the functions below: Python's \<open>None\<close>, the missing
  value NaN that pandas puts in an empty cell, or text.
\<close>

datatype pyval = PNone | PNaN | PStr ustr

fun isna :: "pyval \<Rightarrow> bool" where
  "isna PNone = True"
| "isna PNaN = True"
| "isna (PStr s) = False"

text \<open>Truth value of a cell (\<open>if lic\<close>): \<open>None\<close> and the empty text are false, NaN is true.\<close>

fun truthy :: "pyval \<Rightarrow> bool" where
  "truthy PNone = False"
| "truthy PNaN = True"
| "truthy (PStr s) = (s \<noteq> [])"

fun py_str :: "pyval \<Rightarrow> ustr" where
  "py_str PNone = lit ''None''"
| "py_str PNaN = lit ''nan''"
| "py_str (PStr s) = s"

datatype failure =
    Stop ustr
  | KeyError pyval
  | ValueError
  | IndexError

section \<open>License priority logic\<close>

definition LICENSE_PRIORITY :: "pyval \<rightharpoonup> int" where
  "LICENSE_PRIORITY = map_of
     [(PStr (lit ''Professional''), 3), (PStr (lit ''Functional''), 2),
      (PStr (lit ''Productivity''), 1)]"

text \<open>\<open>LICENSE_PRIORITY[x]\<close> and \<open>LICENSE_PRIORITY.get(x, d)\<close>.\<close>

definition priority_item :: "pyval \<Rightarrow> failure + int" where
  "priority_item x = (case LICENSE_PRIORITY x of None \<Rightarrow> Inl (KeyError x) | Some r \<Rightarrow> Inr r)"

definition priority_get :: "pyval \<Rightarrow> int \<Rightarrow> int" where
  "priority_get x d = (case LICENSE_PRIORITY x of None \<Rightarrow> d | Some r \<Rightarrow> r)"

definition normalize_license :: "pyval \<Rightarrow> pyval" where
  "normalize_license license_name =
     (if isna license_name then PNone else PStr (title (strip (py_str license_name))))"

text \<open>
  \<open>max(xs, key=k)\<close>: the first element whose key is greatest; \<open>ValueError\<close> on an empty
  list, and the error of the key function where it raises.
\<close>

fun max_from :: "('a \<Rightarrow> failure + int) \<Rightarrow> 'a \<Rightarrow> int \<Rightarrow> 'a list \<Rightarrow> failure + 'a" where
  "max_from k best kbest [] = Inr best"
| "max_from k best kbest (x # xs) =
     (case k x of
        Inl e \<Rightarrow> Inl e
      | Inr kx \<Rightarrow> if kx > kbest then max_from k x kx xs else max_from k best kbest xs)"

fun py_max :: "('a \<Rightarrow> failure + int) \<Rightarrow> 'a list \<Rightarrow> failure + 'a" where
  "py_max k [] = Inl ValueError"
| "py_max k (x # xs) = (case k x of Inl e \<Rightarrow> Inl e | Inr kx \<Rightarrow> max_from k x kx xs)"

definition NO_DATA :: pyval where
  "NO_DATA = PStr (lit ''No Data'')"

definition NOT_ASSIGNED :: pyval where
  "NOT_ASSIGNED = PStr (lit ''Not Assigned'')"

definition get_highest_license :: "pyval list \<Rightarrow> failure + pyval" where
  "get_highest_license license_list =
     (let normalized = map normalize_license (filter truthy license_list);
          valid_licenses = filter (\<lambda>lic. LICENSE_PRIORITY lic \<noteq> None) normalized
      in if valid_licenses = [] then Inr NO_DATA
         else py_max priority_item valid_licenses)"

text \<open>The four status texts, with the symbols they start with in the source.\<close>

definition OPTIMIZED :: pyval where
  "OPTIMIZED = PStr (9989 # lit '' Optimized'')"

definition OVER_LICENSED :: pyval where
  "OVER_LICENSED = PStr (128315 # lit '' Over-Licensed'')"

definition UNDER_LICENSED :: pyval where
  "UNDER_LICENSED = PStr (9888 # 65039 # lit '' Under-Licensed'')"

definition REVIEW :: pyval where
  "REVIEW = PStr (9881 # 65039 # lit '' Review'')"

definition determine_status :: "pyval \<Rightarrow> pyval \<Rightarrow> pyval" where
  "determine_status current recommended =
     (let current = normalize_license current;
          recommended = normalize_license recommended
      in if current = recommended then OPTIMIZED
         else if priority_get current 0 > priority_get recommended 0 then OVER_LICENSED
         else if priority_get current 0 < priority_get recommended 0 then UNDER_LICENSED
         else REVIEW)"

text \<open>Membership in the priority table (\<open>lic in LICENSE_PRIORITY\<close>).\<close>

definition recognized :: "pyval \<Rightarrow> bool" where
  "recognized t = (LICENSE_PRIORITY t \<noteq> None)"

text \<open>The list \<open>valid_licenses\<close> that \<open>get_highest_license\<close> builds.\<close>

definition valid_licenses :: "pyval list \<Rightarrow> pyval list" where
  "valid_licenses license_list =
     filter (\<lambda>lic. LICENSE_PRIORITY lic \<noteq> None)
       (map normalize_license (filter truthy license_list))"

text \<open>Text made of Basic Latin code points only.\<close>

definition basic_latin :: "ustr \<Rightarrow> bool" where
  "basic_latin s = list_all (\<lambda>c. c < 128) s"

subsection \<open>The classifier as the specification words it\<close>

text \<open>
  The specification's rank table with its floor, and its four cases of the status, read
  as a relation between the two labels and a status text. The ranks are those of the
  normalized labels, as the first case compares the normalized labels.
\<close>

definition spec_rank_of :: "pyval \<Rightarrow> int" where
  "spec_rank_of tier =
     (if tier = PStr (lit ''Productivity'') then 1
      else if tier = PStr (lit ''Functional'') then 2
      else if tier = PStr (lit ''Professional'') then 3
      else 0)"

definition spec_classify :: "pyval \<Rightarrow> pyval \<Rightarrow> pyval \<Rightarrow> bool" where
  "spec_classify current recommended status =
     (let c = normalize_license current; r = normalize_license recommended
      in (status = OPTIMIZED \<and> c = r)
       \<or> (status = OVER_LICENSED \<and> spec_rank_of c > spec_rank_of r)
       \<or> (status = UNDER_LICENSED \<and> spec_rank_of c < spec_rank_of r)
       \<or> (status = REVIEW \<and> c \<noteq> r \<and> spec_rank_of c = spec_rank_of r))"

section \<open>The two sheets\<close>

text \<open>
  The sheets are modelled with the columns the script reads. Which of them a sheet has, once
  the header names are trimmed, is a flag of the sheet; the cell of a column the sheet does not
  have is never read. Columns beyond these, and a column name shared by the two sheets other
  than \<open>Tcode\<close>, are not modelled.
\<close>

record user_row =
  Tcode :: pyval
  User_Name :: pyval
  User_ID :: pyval
  License :: pyval

record master_row =
  m_Tcode :: pyval
  m_License_Type :: pyval
  m_Description :: pyval

record users_sheet =
  u_has_Tcode :: bool
  u_has_User_Name :: bool
  u_has_User_ID :: bool
  u_has_License :: bool
  u_rows :: "user_row list"

record master_sheet =
  m_has_Tcode :: bool
  m_has_License_Type :: bool
  m_has_Description :: bool
  m_rows :: "master_row list"

text \<open>A row of the merged frame: the row of the user sheet with the two catalog cells.\<close>

record merged_row = user_row +
  License_Type :: pyval
  Description :: pyval

record merged_frame =
  f_has_User_Name :: bool
  f_has_User_ID :: bool
  f_has_License :: bool
  f_has_Description :: bool
  f_rows :: "merged_row list"

record manual_view =
  v_selected_user :: pyval
  v_current_license :: pyval
  v_recommended_license :: pyval
  v_status :: pyval

record result_row =
  r_User_Name :: pyval
  r_User_ID :: pyval
  r_Current_License :: pyval
  r_Recommended_License :: pyval
  r_Status :: pyval

section \<open>The operations of pandas the script uses\<close>

text \<open>\<open>.astype(str).str.strip().str.upper()\<close> and \<open>.astype(str).str.strip().str.title()\<close>.\<close>

definition normalize_tcode :: "pyval \<Rightarrow> pyval" where
  "normalize_tcode v = PStr (upper (strip (py_str v)))"

definition normalize_license_type :: "pyval \<Rightarrow> pyval" where
  "normalize_license_type v = PStr (title (strip (py_str v)))"

definition dropna :: "pyval list \<Rightarrow> pyval list" where
  "dropna vs = filter (\<lambda>v. \<not> isna v) vs"

text \<open>The text cells of a column; after \<open>dropna\<close> every cell is one.\<close>

fun texts :: "pyval list \<Rightarrow> ustr list" where
  "texts [] = []"
| "texts (PStr s # vs) = s # texts vs"
| "texts (v # vs) = texts vs"

text \<open>\<open>Series.unique()\<close>: the values in the order of their first appearance.\<close>

definition unique :: "'a list \<Rightarrow> 'a list" where
  "unique xs = rev (remdups (rev xs))"

text \<open>
  \<open>Series.mode()\<close>: the values that occur most often among those present, sorted.
\<close>

definition max_count :: "ustr list \<Rightarrow> nat" where
  "max_count xs = foldr (\<lambda>x m. max (count_list xs x) m) xs 0"

definition series_mode :: "pyval list \<Rightarrow> pyval list" where
  "series_mode vs =
     (let xs = texts (dropna vs)
      in map PStr (sort (remdups (filter (\<lambda>x. count_list xs x = max_count xs) xs))))"

text \<open>\<open>s == v\<close> inside a row filter: true for two equal texts, false where a side is missing.\<close>

fun cell_eq :: "pyval \<Rightarrow> pyval \<Rightarrow> bool" where
  "cell_eq (PStr s) (PStr t) = (s = t)"
| "cell_eq a b = False"

definition iloc0 :: "'a list \<Rightarrow> failure + 'a" where
  "iloc0 xs = (case xs of [] \<Rightarrow> Inl IndexError | x # rest \<Rightarrow> Inr x)"

text \<open>
  \<open>pd.merge(left, right, on="Tcode", how="left")\<close>: the rows of the left sheet in their
  order, each once per right row with the same key, in the order of the right sheet, and once
  with missing values where no right row has the key.
\<close>

definition join_cells :: "user_row \<Rightarrow> pyval \<Rightarrow> pyval \<Rightarrow> merged_row" where
  "join_cells u t d =
     \<lparr>Tcode = Tcode u, User_Name = User_Name u, User_ID = User_ID u, License = License u,
      License_Type = t, Description = d\<rparr>"

definition merge_row :: "master_row list \<Rightarrow> user_row \<Rightarrow> merged_row list" where
  "merge_row right u =
     (case filter (\<lambda>m. m_Tcode m = Tcode u) right of
        [] \<Rightarrow> [join_cells u PNaN PNaN]
      | matches \<Rightarrow> map (\<lambda>m. join_cells u (m_License_Type m) (m_Description m)) matches)"

definition merge_left :: "user_row list \<Rightarrow> master_row list \<Rightarrow> merged_row list" where
  "merge_left left right = concat (map (merge_row right) left)"

definition user_part :: "merged_row \<Rightarrow> user_row" where
  "user_part g = \<lparr>Tcode = Tcode g, User_Name = User_Name g, User_ID = User_ID g, License = License g\<rparr>"

text \<open>
  \<open>groupby("User Name")\<close>: one group for each user name that is present, the groups in
  the sorted order of the names, the rows of a group in the order of the frame.
\<close>

definition group_keys :: "merged_row list \<Rightarrow> ustr list" where
  "group_keys merged = sort (remdups (texts (dropna (map User_Name merged))))"

definition groupby_User_Name :: "merged_frame \<Rightarrow> failure + (ustr \<times> merged_row list) list" where
  "groupby_User_Name merged =
     (if f_has_User_Name merged then
        Inr (map (\<lambda>k. (k, filter (\<lambda>g. User_Name g = PStr k) (f_rows merged)))
               (group_keys (f_rows merged)))
      else Inl (KeyError (PStr (lit ''User Name''))))"

section \<open>Processing\<close>

text \<open>Lines 76 to 90: the keys and the tiers are normalized, then the sheets are merged.\<close>

definition normalized_users :: "users_sheet \<Rightarrow> user_row list" where
  "normalized_users df_users = map (\<lambda>u. u\<lparr>Tcode := normalize_tcode (Tcode u)\<rparr>) (u_rows df_users)"

definition normalized_master :: "master_sheet \<Rightarrow> master_row list" where
  "normalized_master df_license_master =
     map (\<lambda>m. m\<lparr>m_Tcode := normalize_tcode (m_Tcode m),
               m_License_Type := normalize_license_type (m_License_Type m)\<rparr>)
       (m_rows df_license_master)"

definition merged_of :: "users_sheet \<Rightarrow> master_sheet \<Rightarrow> merged_frame" where
  "merged_of df_users df_license_master =
     \<lparr>f_has_User_Name = u_has_User_Name df_users, f_has_User_ID = u_has_User_ID df_users,
      f_has_License = u_has_License df_users,
      f_has_Description = m_has_Description df_license_master,
      f_rows = merge_left (normalized_users df_users) (normalized_master df_license_master)\<rparr>"

text \<open>The "safe current license extraction" of both modes.\<close>

definition current_license_of :: "bool \<Rightarrow> merged_row list \<Rightarrow> pyval" where
  "current_license_of has_License user_data =
     (if has_License \<and> dropna (map License user_data) \<noteq> [] then
        (case series_mode (map License user_data) of
           [] \<Rightarrow> NOT_ASSIGNED
         | first # rest \<Rightarrow> first)
      else NOT_ASSIGNED)"

definition recommended_license_of :: "merged_row list \<Rightarrow> failure + pyval" where
  "recommended_license_of user_data =
     get_highest_license (map normalize_license (dropna (map License_Type user_data)))"

text \<open>
  \<open>st.selectbox\<close>: the option the operator picked, the first option when nothing valid was
  picked, \<open>None\<close> when there is no option.
\<close>

definition selectbox :: "pyval list \<Rightarrow> pyval \<Rightarrow> pyval" where
  "selectbox options choice =
     (case options of
        [] \<Rightarrow> PNone
      | first # rest \<Rightarrow> if choice \<in> set options then choice else first)"

definition manual_mode :: "merged_frame \<Rightarrow> pyval \<Rightarrow> failure + manual_view" where
  "manual_mode merged choice =
     (if f_has_User_Name merged then
        (let users = unique (dropna (map User_Name (f_rows merged)));
             selected_user = selectbox users choice;
             user_data = filter (\<lambda>g. cell_eq (User_Name g) selected_user) (f_rows merged);
             current_license = current_license_of (f_has_License merged) user_data
         in case recommended_license_of user_data of
              Inl e \<Rightarrow> Inl e
            | Inr recommended_license \<Rightarrow>
                Inr \<lparr>v_selected_user = selected_user, v_current_license = current_license,
                     v_recommended_license = recommended_license,
                     v_status = determine_status current_license recommended_license\<rparr>)
      else Inl (KeyError (PStr (lit ''User Name''))))"

text \<open>The body of the loop of the bulk mode, for one group.\<close>

definition assess_group :: "merged_frame \<Rightarrow> ustr \<times> merged_row list \<Rightarrow> failure + result_row" where
  "assess_group merged ug =
     (case ug of (user, user_group) \<Rightarrow>
        (case recommended_license_of user_group of
           Inl e \<Rightarrow> Inl e
         | Inr recommended_license \<Rightarrow>
             (let current_license = current_license_of (f_has_License merged) user_group;
                  status = determine_status current_license recommended_license
              in case (if f_has_User_ID merged then iloc0 (map User_ID user_group)
                       else Inr (PStr (lit ''N/A''))) of
                   Inl e \<Rightarrow> Inl e
                 | Inr user_id \<Rightarrow>
                     Inr \<lparr>r_User_Name = PStr user, r_User_ID = user_id,
                          r_Current_License = current_license,
                          r_Recommended_License = recommended_license,
                          r_Status = status\<rparr>)))"

text \<open>A loop that appends one result per element and stops at the first failure.\<close>

fun for_each :: "('a \<Rightarrow> failure + 'b) \<Rightarrow> 'a list \<Rightarrow> failure + 'b list" where
  "for_each f [] = Inr []"
| "for_each f (x # xs) =
     (case f x of
        Inl e \<Rightarrow> Inl e
      | Inr y \<Rightarrow> (case for_each f xs of Inl e \<Rightarrow> Inl e | Inr ys \<Rightarrow> Inr (y # ys)))"

definition bulk_mode :: "merged_frame \<Rightarrow> failure + result_row list" where
  "bulk_mode merged =
     (case groupby_User_Name merged of
        Inl e \<Rightarrow> Inl e
      | Inr groups \<Rightarrow> for_each (assess_group merged) groups)"

text \<open>
  The script once both files are uploaded: the two column checks, the merge, the manual
  mode, then the bulk mode. \<open>Stop\<close> is \<open>st.error\<close> followed by \<open>st.stop()\<close>; the other
  failures are exceptions nothing catches. The charts of the bulk mode read the column
  \<open>Recommended License\<close> of the report, which a report without rows does not have.
\<close>

definition TCODE_MISSING :: ustr where
  "TCODE_MISSING = 10060 # lit '' 'Tcode' column missing in one of the files.''"

definition LICENSE_TYPE_MISSING :: ustr where
  "LICENSE_TYPE_MISSING = 10060 # lit '' 'License Type' column missing in License Master file.''"

definition run :: "users_sheet \<Rightarrow> master_sheet \<Rightarrow> pyval \<Rightarrow> failure + manual_view \<times> result_row list" where
  "run df_users df_license_master choice =
     (if \<not> u_has_Tcode df_users \<or> \<not> m_has_Tcode df_license_master then Inl (Stop TCODE_MISSING)
      else if m_has_License_Type df_license_master then
        (let merged = merged_of df_users df_license_master
         in case manual_mode merged choice of
              Inl e \<Rightarrow> Inl e
            | Inr view \<Rightarrow>
                (case bulk_mode merged of
                   Inl e \<Rightarrow> Inl e
                 | Inr df_result \<Rightarrow>
                     if df_result = [] then Inl (KeyError (PStr (lit ''Recommended License'')))
                     else Inr (view, df_result)))
      else Inl (Stop LICENSE_TYPE_MISSING))"

section \<open>Notions used to state the properties\<close>

text \<open>
  A value that occurs in a list at least as often as every other value; the rows of one user in
  the merged frame; the licenses assigned to a user in the user sheet, before the merge; and what
  the loop of the bulk mode appends for one group.
\<close>

definition most_frequent :: "ustr list \<Rightarrow> ustr \<Rightarrow> bool" where
  "most_frequent xs x = (x \<in> set xs \<and> (\<forall>y\<in>set xs. count_list xs y \<le> count_list xs x))"

definition user_rows :: "merged_row list \<Rightarrow> ustr \<Rightarrow> merged_row list" where
  "user_rows merged name = filter (\<lambda>g. User_Name g = PStr name) merged"

definition assigned_licenses :: "users_sheet \<Rightarrow> ustr \<Rightarrow> ustr list" where
  "assigned_licenses df_users name =
     texts (dropna (map License (filter (\<lambda>u. User_Name u = PStr name) (u_rows df_users))))"

definition assessed :: "merged_frame \<Rightarrow> ustr \<times> merged_row list \<Rightarrow> result_row \<Rightarrow> bool" where
  "assessed merged ug r =
     (r_User_Name r = PStr (fst ug)
      \<and> r_Current_License r = current_license_of (f_has_License merged) (snd ug)
      \<and> recommended_license_of (snd ug) = Inr (r_Recommended_License r)
      \<and> r_Status r = determine_status (r_Current_License r) (r_Recommended_License r))"

section \<open>Sample sheets\<close>

text \<open>
  A user sheet with two users and a catalog in which the key \<open>VA01\<close> occurs three times
  once the keys are normalized, the same catalog without the repetitions, and what the script
  computes from them: the merged rows, the report and the view of the manual mode.
\<close>

definition sample_users :: users_sheet where
  "sample_users =
     \<lparr>u_has_Tcode = True, u_has_User_Name = True, u_has_User_ID = True, u_has_License = True,
      u_rows =
        [\<lparr>Tcode = PStr (lit ''va01''), User_Name = PStr (lit ''Bob''), User_ID = PStr (lit ''U2''),
          License = PStr (lit ''Professional'')\<rparr>,
         \<lparr>Tcode = PStr (lit ''ME21N''), User_Name = PStr (lit ''Bob''), User_ID = PStr (lit ''U2''),
          License = PStr (lit ''Functional'')\<rparr>,
         \<lparr>Tcode = PStr (lit ''FB60''), User_Name = PStr (lit ''Bob''), User_ID = PStr (lit ''U2''),
          License = PStr (lit ''Functional'')\<rparr>,
         \<lparr>Tcode = PStr (lit ''ME21N''), User_Name = PStr (lit ''Alice''), User_ID = PStr (lit ''U1''),
          License = PNaN\<rparr>]\<rparr>"

definition sample_master :: master_sheet where
  "sample_master =
     \<lparr>m_has_Tcode = True, m_has_License_Type = True, m_has_Description = False,
      m_rows =
        [\<lparr>m_Tcode = PStr (lit ''VA01''), m_License_Type = PStr (lit ''functional''), m_Description = PNaN\<rparr>,
         \<lparr>m_Tcode = PStr (lit ''VA01 ''), m_License_Type = PStr (lit ''productivity''), m_Description = PNaN\<rparr>,
         \<lparr>m_Tcode = PStr (lit ''Va01''), m_License_Type = PStr (lit ''functional''), m_Description = PNaN\<rparr>,
         \<lparr>m_Tcode = PStr (lit ''ME21N''), m_License_Type = PStr (lit ''Productivity''), m_Description = PNaN\<rparr>]\<rparr>"

definition sample_master_unique :: master_sheet where
  "sample_master_unique =
     \<lparr>m_has_Tcode = True, m_has_License_Type = True, m_has_Description = False,
      m_rows =
        [\<lparr>m_Tcode = PStr (lit ''VA01''), m_License_Type = PStr (lit ''functional''), m_Description = PNaN\<rparr>,
         \<lparr>m_Tcode = PStr (lit ''ME21N''), m_License_Type = PStr (lit ''Productivity''), m_Description = PNaN\<rparr>]\<rparr>"

definition sample_alice :: result_row where
  "sample_alice =
     \<lparr>r_User_Name = PStr (lit ''Alice''), r_User_ID = PStr (lit ''U1''),
      r_Current_License = NOT_ASSIGNED, r_Recommended_License = PStr (lit ''Productivity''),
      r_Status = UNDER_LICENSED\<rparr>"

definition sample_bob :: result_row where
  "sample_bob =
     \<lparr>r_User_Name = PStr (lit ''Bob''), r_User_ID = PStr (lit ''U2''),
      r_Current_License = PStr (lit ''Professional''),
      r_Recommended_License = PStr (lit ''Functional''), r_Status = OVER_LICENSED\<rparr>"

definition sample_report :: "result_row list" where
  "sample_report = [sample_alice, sample_bob]"

definition sample_view :: manual_view where
  "sample_view =
     \<lparr>v_selected_user = PStr (lit ''Bob''), v_current_license = PStr (lit ''Professional''),
      v_recommended_license = PStr (lit ''Functional''), v_status = OVER_LICENSED\<rparr>"

definition sample_merged :: "merged_row list" where
  "sample_merged =
     [\<lparr>Tcode = PStr (lit ''VA01''), User_Name = PStr (lit ''Bob''), User_ID = PStr (lit ''U2''),
       License = PStr (lit ''Professional''), License_Type = PStr (lit ''Functional''),
       Description = PNaN\<rparr>,
      \<lparr>Tcode = PStr (lit ''VA01''), User_Name = PStr (lit ''Bob''), User_ID = PStr (lit ''U2''),
       License = PStr (lit ''Professional''), License_Type = PStr (lit ''Productivity''),
       Description = PNaN\<rparr>,
      \<lparr>Tcode = PStr (lit ''VA01''), User_Name = PStr (lit ''Bob''), User_ID = PStr (lit ''U2''),
       License = PStr (lit ''Professional''), License_Type = PStr (lit ''Functional''),
       Description = PNaN\<rparr>,
      \<lparr>Tcode = PStr (lit ''ME21N''), User_Name = PStr (lit ''Bob''), User_ID = PStr (lit ''U2''),
       License = PStr (lit ''Functional''), License_Type = PStr (lit ''Productivity''),
       Description = PNaN\<rparr>,
      \<lparr>Tcode = PStr (lit ''FB60''), User_Name = PStr (lit ''Bob''), User_ID = PStr (lit ''U2''),
       License = PStr (lit ''Functional''), License_Type = PNaN, Description = PNaN\<rparr>,
      \<lparr>Tcode = PStr (lit ''ME21N''), User_Name = PStr (lit ''Alice''), User_ID = PStr (lit ''U1''),
       License = PNaN, License_Type = PStr (lit ''Productivity''), Description = PNaN\<rparr>]"

section \<open>Properties of the text functions and of the priority logic\<close>

lemmas text_eval = lit_def is_space_def is_upper_latin_def is_lower_latin_def is_cased_def
  to_title_full_def to_lower_full_def to_upper_full_def strip_def title_def upper_def

lemma LICENSE_PRIORITY_Some:
  "LICENSE_PRIORITY x = Some n \<longleftrightarrow>
     (x = PStr (lit ''Professional'') \<and> n = 3) \<or> (x = PStr (lit ''Functional'') \<and> n = 2)
     \<or> (x = PStr (lit ''Productivity'') \<and> n = 1)"
  by (auto simp: LICENSE_PRIORITY_def lit_def)

lemma LICENSE_PRIORITY_None:
  "LICENSE_PRIORITY x = None \<longleftrightarrow>
     x \<noteq> PStr (lit ''Professional'') \<and> x \<noteq> PStr (lit ''Functional'')
     \<and> x \<noteq> PStr (lit ''Productivity'')"
  by (auto simp: LICENSE_PRIORITY_def lit_def)

lemma LICENSE_PRIORITY_inj:
  "LICENSE_PRIORITY a = Some n \<Longrightarrow> LICENSE_PRIORITY b = Some n \<Longrightarrow> a = b"
  by (auto simp: LICENSE_PRIORITY_Some)

lemma status_texts_distinct: "distinct [OPTIMIZED, OVER_LICENSED, UNDER_LICENSED, REVIEW]"
  by (simp add: OPTIMIZED_def OVER_LICENSED_def UNDER_LICENSED_def REVIEW_def lit_def)

lemma determine_status_range:
  "determine_status c r \<in> {OPTIMIZED, OVER_LICENSED, UNDER_LICENSED, REVIEW}"
  by (simp add: determine_status_def Let_def)

lemma spec_rank_of_eq: "spec_rank_of t = priority_get t 0"
  by (simp add: spec_rank_of_def priority_get_def LICENSE_PRIORITY_def lit_def)

lemma determine_status_cases: "spec_classify c r s \<longleftrightarrow> s = determine_status c r"
  using status_texts_distinct
  by (auto simp: spec_classify_def determine_status_def Let_def spec_rank_of_eq)

lemma determine_status_same: "determine_status t t = OPTIMIZED"
  by (simp add: determine_status_def)

lemma do_title_latin_shape:
  "basic_latin s \<Longrightarrow> basic_latin (do_title b s) \<and> map is_space (do_title b s) = map is_space s
     \<and> map is_cased (do_title b s) = map is_cased s"
  by (induction s arbitrary: b)
     (auto simp: basic_latin_def to_title_full_def to_lower_full_def is_space_def is_cased_def
        is_upper_latin_def is_lower_latin_def)

lemma lower_char_latin:
  assumes "c < 128"
  shows "\<exists>t. to_lower_full c = [t] \<and> is_cased t = is_cased c \<and> to_lower_full t = [t]"
proof (cases "is_upper_latin c")
  case True
  then have "is_lower_latin (c + 32)" "\<not> is_upper_latin (c + 32)" "c + 32 \<noteq> 304"
    by (auto simp: is_upper_latin_def is_lower_latin_def)
  then show ?thesis using True by (simp add: to_lower_full_def is_cased_def)
next
  case False
  then show ?thesis using assms by (simp add: to_lower_full_def)
qed

lemma title_char_latin:
  assumes "c < 128"
  shows "\<exists>t. to_title_full c = [t] \<and> is_cased t = is_cased c \<and> to_title_full t = [t]"
proof (cases "is_lower_latin c")
  case True
  then have "is_upper_latin (c - 32)" "\<not> is_lower_latin (c - 32)"
    by (auto simp: is_upper_latin_def is_lower_latin_def)
  then show ?thesis using True by (simp add: to_title_full_def is_cased_def)
next
  case False
  then show ?thesis by (simp add: to_title_full_def)
qed

lemma do_title_latin_idem: "basic_latin s \<Longrightarrow> do_title b (do_title b s) = do_title b s"
proof (induction s arbitrary: b)
  case Nil
  then show ?case by simp
next
  case (Cons c cs)
  then have cs: "do_title (is_cased c) (do_title (is_cased c) cs) = do_title (is_cased c) cs"
    by (simp add: basic_latin_def)
  from Cons.prems have c: "c < 128" by (simp add: basic_latin_def)
  show ?case
  proof (cases b)
    case True
    obtain t where "to_lower_full c = [t]" "is_cased t = is_cased c" "to_lower_full t = [t]"
      using lower_char_latin[OF c] by blast
    then show ?thesis using True cs by simp
  next
    case False
    obtain t where "to_title_full c = [t]" "is_cased t = is_cased c" "to_title_full t = [t]"
      using title_char_latin[OF c] by blast
    then show ?thesis using False cs by simp
  qed
qed

lemma dropWhile_fix: "dropWhile P xs = xs \<longleftrightarrow> (xs = [] \<or> \<not> P (hd xs))"
proof (cases xs)
  case Nil
  then show ?thesis by simp
next
  case (Cons a list)
  have "length (dropWhile P list) \<le> length list" by (rule length_dropWhile_le)
  then have "dropWhile P list \<noteq> a # list" by auto
  then show ?thesis using Cons by auto
qed

lemma strip_fix: "strip s = s \<longleftrightarrow> (s = [] \<or> (\<not> is_space (hd s) \<and> \<not> is_space (last s)))"
proof (cases "s = []")
  case True
  then show ?thesis by (simp add: strip_def)
next
  case False
  show ?thesis
  proof (cases "is_space (hd s)")
    case True
    have "length (strip s) \<le> length (dropWhile is_space s)"
      unfolding strip_def by (simp add: length_dropWhile_le order_trans[OF length_dropWhile_le])
    moreover have "length (dropWhile is_space s) < length s"
      using False True by (cases s) (auto simp: length_dropWhile_le le_imp_less_Suc)
    ultimately have "strip s \<noteq> s" by auto
    then show ?thesis using True False by simp
  next
    case nsp: False
    then have d: "dropWhile is_space s = s" using False by (simp add: dropWhile_fix)
    have "strip s = s \<longleftrightarrow> dropWhile is_space (rev s) = rev s"
      unfolding strip_def d by (metis rev_rev_ident)
    also have "\<dots> \<longleftrightarrow> \<not> is_space (last s)"
      using False by (simp add: dropWhile_fix hd_rev)
    finally show ?thesis using False nsp by simp
  qed
qed

lemma strip_stripped: "strip (strip s) = strip s"
proof -
  let ?d = "dropWhile is_space s"
  have a: "dropWhile is_space (rev (dropWhile is_space (rev ?d))) = rev (dropWhile is_space (rev ?d))" 
  proof (cases "dropWhile is_space (rev ?d) = []")
    case True
    show ?thesis unfolding True by simp
  next
    case False
    then have "rev (dropWhile is_space (rev ?d)) \<noteq> []" by simp
    have "?d = rev (dropWhile is_space (rev ?d)) @ rev (takeWhile is_space (rev ?d))"
      by (metis rev_append rev_rev_ident takeWhile_dropWhile_id)
    then have "hd (rev (dropWhile is_space (rev ?d))) = hd ?d"
      using False by (metis hd_append2 rev_is_Nil_conv)
    moreover have "?d \<noteq> []"
    proof
      assume "?d = []"
      then have "dropWhile is_space (rev ?d) = []" by (simp only: rev.simps dropWhile.simps)
      then show False using False by simp
    qed
    then have "\<not> is_space (hd ?d)" by (rule hd_dropWhile)
    ultimately show ?thesis using False by (simp add: dropWhile_fix)
  qed
  show ?thesis
    unfolding strip_def a by (simp add: dropWhile_fix hd_dropWhile)
qed

lemma map_eq_hd_last:
  "map f xs = map f ys \<Longrightarrow> xs \<noteq> [] \<Longrightarrow> f (hd xs) = f (hd ys) \<and> f (last xs) = f (last ys) \<and> ys \<noteq> []"
  by (metis hd_map last_map map_is_Nil_conv)

lemma strip_title_latin:
  assumes "basic_latin s" "strip s = s"
  shows "strip (title s) = title s"
proof (cases "s = []")
  case True
  then show ?thesis by (simp add: title_def strip_def)
next
  case False
  have m: "map is_space (title s) = map is_space s"
    using assms(1) by (simp add: title_def do_title_latin_shape)
  have t: "title s \<noteq> []" using m False by (metis map_is_Nil_conv)
  from map_eq_hd_last[OF m t] assms(2) False show ?thesis
    by (simp add: strip_fix)
qed

lemma basic_latin_strip: "basic_latin s \<Longrightarrow> basic_latin (strip s)"
  unfolding basic_latin_def strip_def list_all_iff
  by (metis set_dropWhileD set_rev)

lemma normalize_text_latin_idem:
  assumes "basic_latin s"
  shows "title (strip (title (strip s))) = title (strip s)"
proof -
  have b: "basic_latin (strip s)" using assms by (rule basic_latin_strip)
  have "strip (title (strip s)) = title (strip s)"
    using b strip_stripped by (rule strip_title_latin)
  then show ?thesis using b by (simp add: title_def do_title_latin_idem)
qed

lemma max_from_greatest:
  assumes "\<forall>x\<in>set xs. k x = Inr (f x)"
  shows "\<exists>m. max_from k b (f b) xs = Inr m \<and> m \<in> set (b # xs)
           \<and> (\<forall>x\<in>set (b # xs). f x \<le> f m)"
  using assms
proof (induction xs arbitrary: b)
  case Nil
  then show ?case by simp
next
  case (Cons x xs)
  then have kx: "k x = Inr (f x)" and rest: "\<forall>y\<in>set xs. k y = Inr (f y)" by simp_all
  show ?case
  proof (cases "f x > f b")
    case True
    from Cons.IH[OF rest, of x] obtain m where
      m: "max_from k x (f x) xs = Inr m" "m \<in> set (x # xs)" "\<forall>y\<in>set (x # xs). f y \<le> f m"
      by blast
    then have "f b \<le> f m" using True by fastforce
    then show ?thesis using m kx True by auto
  next
    case False
    from Cons.IH[OF rest, of b] obtain m where
      m: "max_from k b (f b) xs = Inr m" "m \<in> set (b # xs)" "\<forall>y\<in>set (b # xs). f y \<le> f m"
      by blast
    then have "f x \<le> f m" using False by fastforce
    then show ?thesis using m kx False by auto
  qed
qed

lemma py_max_greatest:
  assumes "xs \<noteq> []" "\<forall>x\<in>set xs. k x = Inr (f x)"
  shows "\<exists>m. py_max k xs = Inr m \<and> m \<in> set xs \<and> (\<forall>x\<in>set xs. f x \<le> f m)"
proof (cases xs)
  case Nil
  then show ?thesis using assms by simp
next
  case (Cons b ys)
  then have "\<forall>x\<in>set ys. k x = Inr (f x)" "k b = Inr (f b)" using assms by simp_all
  then show ?thesis using max_from_greatest[of ys k f b] Cons by simp
qed

lemma priority_item_recognized: "recognized t \<Longrightarrow> priority_item t = Inr (priority_get t 0)"
  by (auto simp: recognized_def priority_item_def priority_get_def)

lemma recognized_cases:
  "recognized t \<longleftrightarrow> t \<in> {PStr (lit ''Professional''), PStr (lit ''Functional''), PStr (lit ''Productivity'')}"
  using LICENSE_PRIORITY_None[of t] by (auto simp: recognized_def)

lemma recognized_priority_inj:
  "recognized a \<Longrightarrow> recognized b \<Longrightarrow> priority_get a 0 = priority_get b 0 \<Longrightarrow> a = b"
  by (auto simp: recognized_def priority_get_def intro: LICENSE_PRIORITY_inj)

lemma unrecognized_priority: "\<not> recognized t \<Longrightarrow> priority_get t 0 = 0"
  by (simp add: recognized_def priority_get_def)

lemma recognized_priority_pos:
  assumes "recognized t"
  shows "0 < priority_get t 0"
proof -
  from assms obtain n where n: "LICENSE_PRIORITY t = Some n" by (auto simp: recognized_def)
  then have "0 < n" using LICENSE_PRIORITY_Some[of t n] by auto
  then show ?thesis using n by (simp add: priority_get_def)
qed

lemma normalize_recognized_truthy: "recognized (normalize_license x) \<Longrightarrow> truthy x"
  by (cases x) (auto simp: recognized_cases normalize_license_def text_eval)

lemma set_valid_licenses:
  "set (valid_licenses xs) = {t. recognized t \<and> t \<in> normalize_license ` set xs}"
  using normalize_recognized_truthy
  by (auto simp: valid_licenses_def recognized_def)

lemma get_highest_license_alt:
  "get_highest_license xs =
     (if valid_licenses xs = [] then Inr NO_DATA else py_max priority_item (valid_licenses xs))"
  by (simp add: get_highest_license_def valid_licenses_def Let_def)

lemma get_highest_license_none:
  assumes "\<forall>x\<in>set xs. \<not> recognized (normalize_license x)"
  shows "get_highest_license xs = Inr NO_DATA"
proof -
  have "set (valid_licenses xs) = {}" using assms by (auto simp: set_valid_licenses)
  then show ?thesis by (simp add: get_highest_license_alt)
qed

lemma get_highest_license_some:
  assumes "x \<in> set xs" "recognized (normalize_license x)"
  shows "\<exists>t. get_highest_license xs = Inr t \<and> recognized t \<and> t \<in> normalize_license ` set xs
           \<and> (\<forall>y\<in>set xs. priority_get (normalize_license y) 0 \<le> priority_get t 0)"
proof -
  let ?v = "valid_licenses xs"
  have ne: "?v \<noteq> []" using assms by (auto simp: set_valid_licenses simp flip: set_empty)
  have "\<forall>t\<in>set ?v. priority_item t = Inr (priority_get t 0)"
    by (simp add: set_valid_licenses priority_item_recognized)
  from py_max_greatest[OF ne this] obtain m where
    m: "py_max priority_item ?v = Inr m" "m \<in> set ?v" "\<forall>t\<in>set ?v. priority_get t 0 \<le> priority_get m 0"
    by blast
  have rm: "recognized m" "m \<in> normalize_license ` set xs" using m(2) by (auto simp: set_valid_licenses)
  have "priority_get (normalize_license y) 0 \<le> priority_get m 0" if "y \<in> set xs" for y
  proof (cases "recognized (normalize_license y)")
    case True
    then have "normalize_license y \<in> set ?v" using that by (auto simp: set_valid_licenses)
    then show ?thesis using m(3) by blast
  next
    case False
    then show ?thesis using recognized_priority_pos[OF rm(1)] by (simp add: unrecognized_priority)
  qed
  then show ?thesis using m(1) rm ne by (auto simp: get_highest_license_alt)
qed

lemma get_highest_license_set:
  assumes "set xs = set ys"
  shows "get_highest_license xs = get_highest_license ys"
proof (cases "\<exists>x\<in>set xs. recognized (normalize_license x)")
  case True
  then obtain x where x: "x \<in> set xs" "recognized (normalize_license x)" by blast
  from get_highest_license_some[OF x] obtain t where
    t: "get_highest_license xs = Inr t" "recognized t" "t \<in> normalize_license ` set xs"
       "\<forall>y\<in>set xs. priority_get (normalize_license y) 0 \<le> priority_get t 0" by blast
  from x assms have "x \<in> set ys" by simp
  from get_highest_license_some[OF this x(2)] obtain u where
    u: "get_highest_license ys = Inr u" "recognized u" "u \<in> normalize_license ` set ys"
       "\<forall>y\<in>set ys. priority_get (normalize_license y) 0 \<le> priority_get u 0" by blast
  have "priority_get t 0 \<le> priority_get u 0" using t(3) u(4) assms by auto
  moreover have "priority_get u 0 \<le> priority_get t 0" using u(3) t(4) assms by auto
  ultimately have "t = u" using recognized_priority_inj[OF t(2) u(2)] by simp
  then show ?thesis using t(1) u(1) by simp
next
  case False
  then show ?thesis using assms get_highest_license_none[of xs] get_highest_license_none[of ys]
    by simp
qed

lemma get_highest_license_range:
  "get_highest_license xs \<in> {Inr NO_DATA, Inr (PStr (lit ''Productivity'')),
     Inr (PStr (lit ''Functional'')), Inr (PStr (lit ''Professional''))}"
proof (cases "\<exists>x\<in>set xs. recognized (normalize_license x)")
  case True
  then obtain x where x: "x \<in> set xs" "recognized (normalize_license x)" by blast
  from get_highest_license_some[OF x] obtain t where
    "get_highest_license xs = Inr t" "recognized t" by blast
  then show ?thesis by (auto simp: recognized_cases)
next
  case False
  then show ?thesis using get_highest_license_none[of xs] by simp
qed

subsection \<open>The functions at the literals of the source\<close>

lemma normalize_license_examples:
  "normalize_license (PStr (lit ''Professional'')) = PStr (lit ''Professional'')"
  "normalize_license (PStr (lit ''Functional'')) = PStr (lit ''Functional'')"
  "normalize_license (PStr (lit ''Productivity'')) = PStr (lit ''Productivity'')"
  "normalize_license (PStr (lit '' proFESSional  '')) = PStr (lit ''Professional'')"
  "normalize_license (PStr (lit ''functional'')) = PStr (lit ''Functional'')"
  "normalize_license NO_DATA = NO_DATA"
  "normalize_license NOT_ASSIGNED = NOT_ASSIGNED"
  by (simp_all add: normalize_license_def NO_DATA_def NOT_ASSIGNED_def text_eval)

lemma recognized_examples:
  "recognized (PStr (lit ''Professional''))" "recognized (PStr (lit ''Functional''))"
  "recognized (PStr (lit ''Productivity''))" "\<not> recognized NO_DATA" "\<not> recognized NOT_ASSIGNED"
  "\<not> recognized PNone"
  by (simp_all add: recognized_cases NO_DATA_def NOT_ASSIGNED_def lit_def)

lemma priority_get_examples:
  "priority_get (PStr (lit ''Professional'')) 0 = 3"
  "priority_get (PStr (lit ''Functional'')) 0 = 2"
  "priority_get (PStr (lit ''Productivity'')) 0 = 1"
  "priority_get NO_DATA 0 = 0" "priority_get NOT_ASSIGNED 0 = 0" "priority_get PNone 0 = 0"
  by (simp_all add: priority_get_def LICENSE_PRIORITY_def NO_DATA_def NOT_ASSIGNED_def lit_def)

lemma get_highest_license_examples:
  "get_highest_license [] = Inr NO_DATA"
  "get_highest_license [PStr (lit ''Productivity'')] = Inr (PStr (lit ''Productivity''))"
  "get_highest_license [PStr (lit ''Productivity''), PStr (lit ''Professional''),
     PStr (lit ''Functional'')] = Inr (PStr (lit ''Professional''))"
  by (simp_all add: get_highest_license_def normalize_license_def text_eval
      LICENSE_PRIORITY_def priority_item_def)

section \<open>Properties of the merge, the mode and the two modes of the script\<close>

subsection \<open>The join\<close>

lemma user_part_join_cells: "user_part (join_cells u t d) = u"
  by (simp add: user_part_def join_cells_def)

lemma merge_row_not_Nil: "merge_row right u \<noteq> []"
  by (simp add: merge_row_def split: list.split)

lemma user_part_merge_row: "g \<in> set (merge_row right u) \<Longrightarrow> user_part g = u"
  by (auto simp: merge_row_def user_part_join_cells split: list.splits)

lemma merge_row_unmatched:
  "filter (\<lambda>m. m_Tcode m = Tcode u) right = [] \<Longrightarrow> merge_row right u = [join_cells u PNaN PNaN]"
  by (simp add: merge_row_def)

lemma merge_row_matched:
  "filter (\<lambda>m. m_Tcode m = Tcode u) right \<noteq> [] \<Longrightarrow>
     merge_row right u =
       map (\<lambda>m. join_cells u (m_License_Type m) (m_Description m))
         (filter (\<lambda>m. m_Tcode m = Tcode u) right)"
  by (simp add: merge_row_def split: list.split)

lemma length_merge_row: "length (merge_row right u) = max 1 (length (filter (\<lambda>m. m_Tcode m = Tcode u) right))"
  by (cases "filter (\<lambda>m. m_Tcode m = Tcode u) right") (simp_all add: merge_row_def)

lemma map_const_replicate: "\<forall>x\<in>set xs. f x = u \<Longrightarrow> map f xs = replicate (length xs) u"
  by (induction xs) simp_all

lemma map_user_part_merge_row:
  "map user_part (merge_row right u) = replicate (length (merge_row right u)) u"
  by (rule map_const_replicate) (simp add: user_part_merge_row)

lemma merge_left_Nil: "merge_left [] right = []"
  by (simp add: merge_left_def)

lemma merge_left_Cons: "merge_left (u # left) right = merge_row right u @ merge_left left right"
  by (simp add: merge_left_def)

lemma length_merge_left: "length left \<le> length (merge_left left right)"
proof (induction left)
  case Nil
  then show ?case by (simp add: merge_left_Nil)
next
  case (Cons u left)
  have "1 \<le> length (merge_row right u)" by (simp add: length_merge_row)
  then show ?case using Cons by (simp add: merge_left_Cons)
qed

lemma count_list_append: "count_list (xs @ ys) a = count_list xs a + count_list ys a"
  by (induction xs) simp_all

lemma count_list_replicate: "count_list (replicate n u) a = (if u = a then n else 0)"
  by (induction n) auto

lemma count_user_part_merge_row:
  "count_list (map user_part (merge_row right u)) a = (if u = a then length (merge_row right u) else 0)"
  by (simp add: map_user_part_merge_row count_list_replicate)

lemma count_merge_left_ge: "count_list left a \<le> count_list (map user_part (merge_left left right)) a"
proof (induction left)
  case Nil
  then show ?case by (simp add: merge_left_Nil)
next
  case (Cons u left)
  have "1 \<le> length (merge_row right u)" by (simp add: length_merge_row)
  then show ?case using Cons
    by (auto simp: merge_left_Cons count_list_append count_user_part_merge_row)
qed

lemma count_merge_left_unmatched:
  assumes "filter (\<lambda>m. m_Tcode m = Tcode a) right = []"
  shows "count_list (map user_part (merge_left left right)) a = count_list left a"
proof -
  have one: "length (merge_row right a) = 1" using assms by (simp add: merge_row_unmatched)
  show ?thesis
    by (induction left)
       (simp_all add: merge_left_Nil merge_left_Cons count_list_append
          count_user_part_merge_row one)
qed

lemma set_merge_left: "set (merge_left left right) = (\<Union>u\<in>set left. set (merge_row right u))"
  by (simp add: merge_left_def)

lemma merge_left_unmatched_cells:
  assumes "filter (\<lambda>m. m_Tcode m = Tcode a) right = []" "g \<in> set (merge_left left right)"
    "user_part g = a"
  shows "License_Type g = PNaN \<and> Description g = PNaN"
proof -
  from assms(2) obtain u where u: "u \<in> set left" "g \<in> set (merge_row right u)"
    by (auto simp: set_merge_left)
  then have "u = a" using assms(3) user_part_merge_row by blast
  then have "g = join_cells a PNaN PNaN" using u(2) assms(1) by (simp add: merge_row_unmatched)
  then show ?thesis by (simp add: join_cells_def)
qed

lemma merge_left_unique_keys:
  assumes "distinct (map m_Tcode right)"
  shows "map user_part (merge_left left right) = left"
proof -
  have "length (filter (\<lambda>m. m_Tcode m = k) right) \<le> 1" for k
    using assms
  proof (induction right)
    case Nil
    then show ?case by simp
  next
    case (Cons m right)
    have "filter (\<lambda>m. m_Tcode m = k) right = []" if "m_Tcode m = k"
    proof -
      have "m_Tcode m \<notin> m_Tcode ` set right" using Cons.prems by simp
      then have "\<forall>x\<in>set right. m_Tcode x \<noteq> k" using that by blast
      then show ?thesis by (simp add: filter_empty_conv)
    qed
    moreover have "length (filter (\<lambda>m. m_Tcode m = k) right) \<le> 1"
      using Cons by simp
    ultimately show ?case by simp
  qed
  then have le: "length (filter (\<lambda>m. m_Tcode m = Tcode u) right) \<le> 1" for u .
  have one: "length (merge_row right u) = 1" for u
    using le[of u] unfolding length_merge_row by linarith
  show ?thesis
  proof (induction left)
    case Nil
    then show ?case by (simp add: merge_left_Nil)
  next
    case (Cons u left)
    then show ?case by (simp add: merge_left_Cons map_user_part_merge_row one)
  qed
qed

subsection \<open>Columns\<close>

lemma dropna_texts: "dropna vs = map PStr (texts vs)"
  by (induction vs rule: texts.induct) (simp_all add: dropna_def)

lemma texts_map_PStr: "texts (map PStr xs) = xs"
  by (induction xs) simp_all

lemma texts_dropna: "texts (dropna vs) = texts vs"
  by (simp add: dropna_texts texts_map_PStr)

lemma set_texts: "set (texts vs) = {s. PStr s \<in> set vs}"
  by (induction vs rule: texts.induct) auto

lemma dropna_Nil_iff: "dropna vs = [] \<longleftrightarrow> texts vs = []"
  by (simp add: dropna_texts)

subsection \<open>The mode\<close>

lemma foldr_max_ge: "y \<in> set ys \<Longrightarrow> f y \<le> foldr (\<lambda>x m. max (f x) m) ys (0::nat)"
  by (induction ys) auto

lemma foldr_max_attained:
  "ys \<noteq> [] \<Longrightarrow> \<exists>y\<in>set ys. foldr (\<lambda>x m. max (f x) m) ys (0::nat) = f y"
proof (induction ys)
  case Nil
  then show ?case by simp
next
  case (Cons a ys)
  show ?case
  proof (cases "ys = []")
    case True
    then show ?thesis by simp
  next
    case False
    with Cons obtain y where "y \<in> set ys" "foldr (\<lambda>x m. max (f x) m) ys 0 = f y" by blast
    then show ?thesis by (auto simp: max_def)
  qed
qed

lemma max_count_ge: "y \<in> set xs \<Longrightarrow> count_list xs y \<le> max_count xs"
  unfolding max_count_def by (rule foldr_max_ge)

lemma max_count_attained: "xs \<noteq> [] \<Longrightarrow> \<exists>x\<in>set xs. max_count xs = count_list xs x"
  unfolding max_count_def by (rule foldr_max_attained)

lemma most_frequent_iff: "most_frequent xs x \<longleftrightarrow> x \<in> set xs \<and> count_list xs x = max_count xs"
proof (cases "xs = []")
  case True
  then show ?thesis by (simp add: most_frequent_def)
next
  case False
  from max_count_attained[OF this] obtain m where
    m: "m \<in> set xs" "max_count xs = count_list xs m" by blast
  show ?thesis
  proof
    assume mf: "most_frequent xs x"
    then have "count_list xs m \<le> count_list xs x" using m(1) by (simp add: most_frequent_def)
    moreover have "count_list xs x \<le> max_count xs" using mf by (simp add: most_frequent_def max_count_ge)
    ultimately show "x \<in> set xs \<and> count_list xs x = max_count xs"
      using mf m(2) by (simp add: most_frequent_def)
  next
    assume "x \<in> set xs \<and> count_list xs x = max_count xs"
    then show "most_frequent xs x" by (simp add: most_frequent_def max_count_ge)
  qed
qed

lemma most_frequent_exists: "xs \<noteq> [] \<Longrightarrow> \<exists>x. most_frequent xs x"
  using max_count_attained[of xs] by (auto simp: most_frequent_iff)

lemma sort_Cons_least:
  assumes "sort ys = m # rest"
  shows "m \<in> set ys \<and> (\<forall>y\<in>set ys. m \<le> y)"
proof -
  have "sorted (m # rest)" using assms sorted_sort[of ys] by simp
  moreover have "set ys = set (m # rest)" using assms by (metis set_sort)
  ultimately show ?thesis by auto
qed

lemma series_mode_set:
  "set (series_mode vs) = PStr ` {x. most_frequent (texts vs) x}"
  by (auto simp: series_mode_def texts_dropna most_frequent_iff Let_def)

lemma series_mode_first:
  assumes "texts vs \<noteq> []"
  shows "\<exists>m rest. series_mode vs = PStr m # rest \<and> most_frequent (texts vs) m
           \<and> (\<forall>y. most_frequent (texts vs) y \<longrightarrow> m \<le> y)"
proof -
  let ?xs = "texts vs"
  let ?modes = "remdups (filter (\<lambda>x. count_list ?xs x = max_count ?xs) ?xs)"
  have set_modes: "set ?modes = {x. most_frequent ?xs x}" by (auto simp: most_frequent_iff)
  moreover obtain x where "most_frequent ?xs x" using most_frequent_exists[OF assms] by blast
  ultimately have "x \<in> set ?modes" by blast
  then have "?modes \<noteq> []" by (metis empty_iff set_empty)
  then have "sort ?modes \<noteq> []" by (metis length_0_conv length_sort)
  then obtain m rest where s: "sort ?modes = m # rest" by (cases "sort ?modes") auto
  from sort_Cons_least[OF this] set_modes
  have "most_frequent ?xs m" "\<forall>y. most_frequent ?xs y \<longrightarrow> m \<le> y" by auto
  moreover have "series_mode vs = PStr m # map PStr rest"
    using s by (simp add: series_mode_def texts_dropna Let_def)
  ultimately show ?thesis by blast
qed

lemma current_license_of_absent:
  "\<not> has_License \<or> texts (map License user_data) = [] \<Longrightarrow>
     current_license_of has_License user_data = NOT_ASSIGNED"
  by (auto simp: current_license_of_def dropna_Nil_iff)

lemma current_license_of_mode:
  assumes "has_License" "texts (map License user_data) \<noteq> []"
  shows "\<exists>m. current_license_of has_License user_data = PStr m
           \<and> most_frequent (texts (map License user_data)) m
           \<and> (\<forall>y. most_frequent (texts (map License user_data)) y \<longrightarrow> m \<le> y)"
proof -
  from series_mode_first[OF assms(2)] obtain m rest where
    "series_mode (map License user_data) = PStr m # rest"
    "most_frequent (texts (map License user_data)) m"
    "\<forall>y. most_frequent (texts (map License user_data)) y \<longrightarrow> m \<le> y" by blast
  then show ?thesis using assms by (auto simp: current_license_of_def dropna_Nil_iff)
qed

subsection \<open>The loop of the bulk mode\<close>

lemma for_each_all2:
  "\<forall>x\<in>set xs. \<exists>y. f x = Inr y \<and> P x y \<Longrightarrow> \<exists>ys. for_each f xs = Inr ys \<and> list_all2 P xs ys"
proof (induction xs)
  case Nil
  then show ?case by simp
next
  case (Cons x xs)
  then obtain y ys where "f x = Inr y" "P x y" "for_each f xs = Inr ys" "list_all2 P xs ys"
    by auto
  then show ?case by simp
qed

lemma recommended_license_of_total: "\<exists>t. recommended_license_of user_data = Inr t"
  using get_highest_license_range[of "map normalize_license (dropna (map License_Type user_data))"]
  by (auto simp: recommended_license_of_def)

lemma assess_group_assessed:
  assumes "snd ug \<noteq> []"
  shows "\<exists>r. assess_group merged ug = Inr r \<and> assessed merged ug r"
proof -
  obtain user rows where ug: "ug = (user, rows)" by (cases ug)
  obtain t where t: "recommended_license_of rows = Inr t"
    using recommended_license_of_total by blast
  obtain g rest where "rows = g # rest" using assms ug by (cases rows) auto
  then have "iloc0 (map User_ID rows) = Inr (User_ID g)" by (simp add: iloc0_def)
  then show ?thesis using ug t by (simp add: assess_group_def assessed_def Let_def)
qed

lemma group_keys_set: "set (group_keys rows) = {n. PStr n \<in> User_Name ` set rows}"
  by (simp add: group_keys_def texts_dropna set_texts)

lemma group_keys_sorted: "sorted (group_keys rows)" "distinct (group_keys rows)"
  by (simp_all add: group_keys_def)

lemma group_keys_cong: "User_Name ` set rows = User_Name ` set rows' \<Longrightarrow> group_keys rows = group_keys rows'"
proof -
  assume a: "User_Name ` set rows = User_Name ` set rows'"
  have "set (texts (dropna (map User_Name rows))) = set (texts (dropna (map User_Name rows')))"
    using a by (simp add: texts_dropna set_texts)
  then have "sorted_list_of_set (set (texts (dropna (map User_Name rows))))
     = sorted_list_of_set (set (texts (dropna (map User_Name rows'))))" by simp
  then show ?thesis unfolding group_keys_def sorted_list_of_set_sort_remdups .
qed

lemma bulk_mode_report:
  assumes "f_has_User_Name merged"
  shows "\<exists>report. bulk_mode merged = Inr report
     \<and> list_all2 (assessed merged)
          (map (\<lambda>k. (k, user_rows (f_rows merged) k)) (group_keys (f_rows merged))) report"
proof -
  let ?groups = "map (\<lambda>k. (k, user_rows (f_rows merged) k)) (group_keys (f_rows merged))"
  have g: "groupby_User_Name merged = Inr ?groups"
    using assms by (simp add: groupby_User_Name_def user_rows_def)
  have "\<exists>r. assess_group merged ug = Inr r \<and> assessed merged ug r" if "ug \<in> set ?groups" for ug
  proof -
    from that obtain k where k: "k \<in> set (group_keys (f_rows merged))"
      "ug = (k, user_rows (f_rows merged) k)" by auto
    then have "PStr k \<in> User_Name ` set (f_rows merged)" by (simp add: group_keys_set)
    then have "user_rows (f_rows merged) k \<noteq> []"
      by (auto simp: user_rows_def filter_empty_conv)
    then show ?thesis using k(2) assess_group_assessed by simp
  qed
  then show ?thesis using for_each_all2[of ?groups "assess_group merged" "assessed merged"] g
    by (simp add: bulk_mode_def)
qed

lemma bulk_mode_no_column:
  "\<not> f_has_User_Name merged \<Longrightarrow> bulk_mode merged = Inl (KeyError (PStr (lit ''User Name'')))"
  by (simp add: bulk_mode_def groupby_User_Name_def)

lemma report_names:
  assumes "list_all2 (assessed merged) (map (\<lambda>k. (k, rows k)) keys) report"
  shows "map r_User_Name report = map PStr keys"
proof -
  have "list_all2 (\<lambda>k r. r_User_Name r = PStr k) keys report"
    using assms by (simp add: list_all2_map1 assessed_def list_all2_mono[OF _ conjunct1])
  then show ?thesis
    by (induction keys report rule: list_all2_induct) simp_all
qed

subsection \<open>What the merge keeps of the user sheet\<close>

lemma set_user_part_merge_left: "user_part ` set (merge_left left right) = set left"
proof -
  have "user_part ` set (merge_row right u) = {u}" for u
    using merge_row_not_Nil[of right u] user_part_merge_row[of _ right u]
    by (cases "merge_row right u") auto
  then show ?thesis by (auto simp: set_merge_left image_UN)
qed

lemma user_part_cells: "User_Name (user_part g) = User_Name g" "License (user_part g) = License g"
  "User_ID (user_part g) = User_ID g"
  by (simp_all add: user_part_def)

lemma merged_user_names:
  "User_Name ` set (f_rows (merged_of df_users df_license_master)) = User_Name ` set (u_rows df_users)"
proof -
  let ?m = "f_rows (merged_of df_users df_license_master)"
  have "User_Name ` set ?m = User_Name ` user_part ` set ?m"
    by (simp add: image_image user_part_cells)
  also have "\<dots> = User_Name ` set (normalized_users df_users)"
    by (simp add: merged_of_def set_user_part_merge_left)
  also have "\<dots> = User_Name ` set (u_rows df_users)"
    by (simp add: normalized_users_def image_image)
  finally show ?thesis .
qed

lemma merged_unique_keys_licenses:
  assumes "distinct (map m_Tcode (normalized_master df_license_master))"
  shows "map License (user_rows (f_rows (merged_of df_users df_license_master)) name)
       = map License (filter (\<lambda>u. User_Name u = PStr name) (u_rows df_users))"
proof -
  let ?m = "f_rows (merged_of df_users df_license_master)"
  have up: "map user_part ?m = normalized_users df_users"
    using assms by (simp add: merged_of_def merge_left_unique_keys)
  have "map License (user_rows ?m name)
      = map License (filter (\<lambda>u. User_Name u = PStr name) (map user_part ?m))"
    by (simp add: user_rows_def filter_map comp_def user_part_cells)
  also have "\<dots> = map License (filter (\<lambda>u. User_Name u = PStr name) (u_rows df_users))"
    unfolding up by (simp add: normalized_users_def filter_map comp_def)
  finally show ?thesis .
qed

subsection \<open>The script on the sample sheets\<close>

lemmas sheet_eval = normalized_users_def normalized_master_def merged_of_def merge_left_def
  merge_row_def join_cells_def normalize_tcode_def normalize_license_type_def text_eval

lemma sample_merged_rows: "f_rows (merged_of sample_users sample_master) = sample_merged"
  by (simp add: sample_users_def sample_master_def sample_merged_def sheet_eval)

lemma sample_keys: "group_keys sample_merged = [lit ''Alice'', lit ''Bob'']"
  by (simp add: sample_merged_def group_keys_def dropna_def lit_def)


lemma sample_bob_licenses:
  "map License (user_rows sample_merged (lit ''Bob''))
     = [PStr (lit ''Professional''), PStr (lit ''Professional''), PStr (lit ''Professional''),
        PStr (lit ''Functional''), PStr (lit ''Functional'')]"
  "map License (user_rows sample_merged (lit ''Alice'')) = [PNaN]"
  "map License_Type (user_rows sample_merged (lit ''Bob''))
     = [PStr (lit ''Functional''), PStr (lit ''Productivity''), PStr (lit ''Functional''),
        PStr (lit ''Productivity''), PNaN]"
  "map License_Type (user_rows sample_merged (lit ''Alice'')) = [PStr (lit ''Productivity'')]"
  "iloc0 (map User_ID (user_rows sample_merged (lit ''Bob''))) = Inr (PStr (lit ''U2''))"
  "iloc0 (map User_ID (user_rows sample_merged (lit ''Alice''))) = Inr (PStr (lit ''U1''))"
  by (simp_all add: sample_merged_def user_rows_def lit_def iloc0_def)


lemma sample_current:
  "current_license_of True (user_rows sample_merged (lit ''Bob'')) = PStr (lit ''Professional'')"
  "current_license_of True (user_rows sample_merged (lit ''Alice'')) = NOT_ASSIGNED"
  unfolding current_license_of_def sample_bob_licenses
  by (simp_all add: dropna_def series_mode_def max_count_def lit_def)

lemma sample_recommended:
  "recommended_license_of (user_rows sample_merged (lit ''Bob'')) = Inr (PStr (lit ''Functional''))"
  "recommended_license_of (user_rows sample_merged (lit ''Alice'')) = Inr (PStr (lit ''Productivity''))"
  unfolding recommended_license_of_def sample_bob_licenses
  by (simp_all add: dropna_def get_highest_license_def normalize_license_def
      LICENSE_PRIORITY_def priority_item_def text_eval)

lemma sample_status:
  "determine_status (PStr (lit ''Professional'')) (PStr (lit ''Functional'')) = OVER_LICENSED"
  "determine_status NOT_ASSIGNED (PStr (lit ''Productivity'')) = UNDER_LICENSED"
  by (simp_all add: determine_status_def normalize_license_def LICENSE_PRIORITY_def priority_get_def
      NOT_ASSIGNED_def text_eval)


lemma sample_flags:
  "f_has_User_Name (merged_of sample_users m)" "f_has_User_ID (merged_of sample_users m)"
  "f_has_License (merged_of sample_users m)"
  by (simp_all add: merged_of_def sample_users_def)

lemma cell_eq_PStr: "cell_eq v (PStr n) \<longleftrightarrow> v = PStr n"
  by (cases v) auto

lemma sample_bulk: "bulk_mode (merged_of sample_users sample_master) = Inr sample_report"
proof -
  let ?m = "merged_of sample_users sample_master"
  have g: "groupby_User_Name ?m =
      Inr [(lit ''Alice'', user_rows sample_merged (lit ''Alice'')),
           (lit ''Bob'', user_rows sample_merged (lit ''Bob''))]"
    by (simp add: groupby_User_Name_def sample_flags sample_merged_rows sample_keys user_rows_def)
  have a: "assess_group ?m (lit ''Alice'', user_rows sample_merged (lit ''Alice'')) = Inr sample_alice"
    by (simp add: assess_group_def sample_flags sample_current sample_recommended sample_status
        sample_bob_licenses sample_alice_def)
  have b: "assess_group ?m (lit ''Bob'', user_rows sample_merged (lit ''Bob'')) = Inr sample_bob"
    by (simp add: assess_group_def sample_flags sample_current sample_recommended sample_status
        sample_bob_licenses sample_bob_def)
  show ?thesis by (simp add: bulk_mode_def g a b sample_report_def)
qed

lemma sample_manual: "manual_mode (merged_of sample_users sample_master) PNone = Inr sample_view"
proof -
  have u: "selectbox (unique (dropna (map User_Name sample_merged))) PNone = PStr (lit ''Bob'')"
    by (simp add: sample_merged_def dropna_def unique_def selectbox_def lit_def)
  have d: "filter (\<lambda>g. cell_eq (User_Name g) (PStr (lit ''Bob''))) sample_merged
      = user_rows sample_merged (lit ''Bob'')"
    by (simp add: cell_eq_PStr user_rows_def)
  show ?thesis
    by (simp add: manual_mode_def sample_flags sample_merged_rows u d sample_current
        sample_recommended sample_status sample_view_def)
qed

lemma sample_run: "run sample_users sample_master PNone = Inr (sample_view, sample_report)"
proof -
  have "sample_report \<noteq> []" by (simp add: sample_report_def)
  moreover have "u_has_Tcode sample_users" "m_has_Tcode sample_master"
    "m_has_License_Type sample_master"
    by (simp_all add: sample_users_def sample_master_def)
  ultimately show ?thesis by (simp add: run_def sample_bulk sample_manual)
qed

lemma list_all2_in_set2: "list_all2 P xs ys \<Longrightarrow> y \<in> set ys \<Longrightarrow> \<exists>x\<in>set xs. P x y"
  by (induction xs ys rule: list_all2_induct) auto

lemma bulk_row_current:
  assumes "bulk_mode merged = Inr report" "r \<in> set report" "r_User_Name r = PStr name"
  shows "r_Current_License r = current_license_of (f_has_License merged) (user_rows (f_rows merged) name)"
proof -
  have has: "f_has_User_Name merged"
    using assms(1) bulk_mode_no_column[of merged] by auto
  from bulk_mode_report[OF has] assms(1)
  have "list_all2 (assessed merged)
          (map (\<lambda>k. (k, user_rows (f_rows merged) k)) (group_keys (f_rows merged))) report"
    by auto
  from list_all2_in_set2[OF this assms(2)] obtain k where
    "assessed merged (k, user_rows (f_rows merged) k) r" by auto
  then show ?thesis using assms(3) by (simp add: assessed_def)
qed

lemma manual_view_current:
  assumes "manual_mode merged choice = Inr view" "v_selected_user view = PStr name"
  shows "v_current_license view = current_license_of (f_has_License merged) (user_rows (f_rows merged) name)"
proof -
  have has: "f_has_User_Name merged"
    using assms(1) by (auto simp: manual_mode_def split: if_splits)
  let ?sel = "selectbox (unique (dropna (map User_Name (f_rows merged)))) choice"
  let ?data = "filter (\<lambda>g. cell_eq (User_Name g) ?sel) (f_rows merged)"
  obtain t where t: "recommended_license_of ?data = Inr t"
    using recommended_license_of_total by blast
  from assms(1) has t have v: "v_selected_user view = ?sel"
    "v_current_license view = current_license_of (f_has_License merged) ?data"
    by (auto simp: manual_mode_def Let_def)
  then have "?sel = PStr name" using assms(2) by simp
  then have "?data = user_rows (f_rows merged) name" by (simp add: cell_eq_PStr user_rows_def)
  then show ?thesis using v(2) by simp
qed

lemma sample_assigned:
  "assigned_licenses sample_users (lit ''Bob'')
     = [lit ''Professional'', lit ''Functional'', lit ''Functional'']"
  by (simp add: assigned_licenses_def sample_users_def dropna_def lit_def)

lemma sample_rows_in_report:
  "sample_bob \<in> set sample_report" "r_User_Name sample_bob = PStr (lit ''Bob'')"
  "r_Current_License sample_bob = PStr (lit ''Professional'')"
  "v_selected_user sample_view = PStr (lit ''Bob'')"
  "v_current_license sample_view = PStr (lit ''Professional'')"
  by (simp_all add: sample_report_def sample_bob_def sample_view_def)

lemma manual_mode_total:
  "f_has_User_Name merged \<Longrightarrow> \<exists>view. manual_mode merged choice = Inr view"
proof -
  assume has: "f_has_User_Name merged"
  let ?sel = "selectbox (unique (dropna (map User_Name (f_rows merged)))) choice"
  let ?data = "filter (\<lambda>g. cell_eq (User_Name g) ?sel) (f_rows merged)"
  obtain t where "recommended_license_of ?data = Inr t" using recommended_license_of_total by blast
  then show ?thesis using has by (simp add: manual_mode_def Let_def)
qed

lemma manual_mode_no_column:
  "\<not> f_has_User_Name merged \<Longrightarrow> manual_mode merged choice = Inl (KeyError (PStr (lit ''User Name'')))"
  by (simp add: manual_mode_def)

lemma run_report:
  "run df_users df_license_master choice = Inr (view, report) \<Longrightarrow>
     bulk_mode (merged_of df_users df_license_master) = Inr report"
  by (auto simp: run_def Let_def split: if_splits sum.splits)


section \<open>The properties of the specification\<close>

text \<open>
  C1. \<open>determine_status\<close> is the classifier of the four cases: a status text satisfies the
  four-case reading of the specification exactly when it is the one the function returns.
  The function is total, its result is one of four pairwise different status texts, and a
  recognized tier compared with itself is Optimized. Unrecognized labels and the sentinels
  rank 0.
\<close>

theorem determine_status_four_cases:
  "(spec_classify c r s \<longleftrightarrow> s = determine_status c r)
   \<and> determine_status c r \<in> {OPTIMIZED, OVER_LICENSED, UNDER_LICENSED, REVIEW}
   \<and> distinct [OPTIMIZED, OVER_LICENSED, UNDER_LICENSED, REVIEW]
   \<and> (recognized t \<longrightarrow> determine_status t t = OPTIMIZED)"
  using determine_status_cases[of c r s] determine_status_range[of c r] status_texts_distinct
    determine_status_same[of t]
  by simp

text \<open>The classifier at a current label written carelessly and the sentinel recommendation.\<close>

theorem determine_status_four_cases_witness:
  "spec_classify (PStr (lit '' proFESSional  '')) NO_DATA OVER_LICENSED
   \<and> determine_status (PStr (lit '' proFESSional  '')) NO_DATA = OVER_LICENSED
   \<and> recognized (PStr (lit ''Functional''))
   \<and> determine_status (PStr (lit ''Functional'')) (PStr (lit ''Functional'')) = OPTIMIZED"
proof -
  have "PStr (lit ''Professional'') \<noteq> NO_DATA" by (simp add: NO_DATA_def lit_def)
  then have e: "determine_status (PStr (lit '' proFESSional  '')) NO_DATA = OVER_LICENSED"
    by (simp add: determine_status_def normalize_license_examples priority_get_examples)
  show ?thesis
    using determine_status_four_cases[of "PStr (lit '' proFESSional  '')" NO_DATA OVER_LICENSED
        "PStr (lit ''Functional'')"] e recognized_examples(2)
    by simp
qed

text \<open>
  C6. The two sentinels stay different texts after normalization and both rank 0, so a user
  with current license "Not Assigned" and recommendation "No Data" is classified Review, which
  is not the Optimized text.
\<close>

theorem sentinels_yield_review:
  "normalize_license NOT_ASSIGNED \<noteq> normalize_license NO_DATA
   \<and> priority_get (normalize_license NOT_ASSIGNED) 0 = 0
   \<and> priority_get (normalize_license NO_DATA) 0 = 0
   \<and> determine_status NOT_ASSIGNED NO_DATA = REVIEW
   \<and> REVIEW \<noteq> OPTIMIZED"
proof -
  have ne: "NOT_ASSIGNED \<noteq> NO_DATA" by (simp add: NOT_ASSIGNED_def NO_DATA_def lit_def)
  have "REVIEW \<noteq> OPTIMIZED" using status_texts_distinct by auto
  then show ?thesis using ne
    by (simp add: determine_status_def normalize_license_examples priority_get_examples)
qed


text \<open>
  C2. \<open>get_highest_license\<close> never fails. On the empty list, and on a list none of whose
  elements normalizes to a recognized tier, it returns the sentinel "No Data". On a list with a
  recognized tier it returns a recognized tier of the list whose rank is greatest. The result
  depends on the set of elements only, hence not on their order. The two examples of the
  specification evaluate as stated.
\<close>

theorem get_highest_license_highest:
  "get_highest_license [] = Inr NO_DATA
   \<and> ((\<forall>x\<in>set xs. \<not> recognized (normalize_license x)) \<longrightarrow> get_highest_license xs = Inr NO_DATA)
   \<and> ((\<exists>x\<in>set xs. recognized (normalize_license x)) \<longrightarrow>
        (\<exists>t. get_highest_license xs = Inr t \<and> recognized t \<and> t \<in> normalize_license ` set xs
           \<and> (\<forall>y\<in>set xs. priority_get (normalize_license y) 0 \<le> priority_get t 0)))
   \<and> (set ys = set xs \<longrightarrow> get_highest_license ys = get_highest_license xs)
   \<and> get_highest_license [PStr (lit ''Productivity''), PStr (lit ''Professional''),
        PStr (lit ''Functional'')] = Inr (PStr (lit ''Professional''))
   \<and> get_highest_license [PStr (lit ''Productivity'')] = Inr (PStr (lit ''Productivity''))"
proof -
  have "get_highest_license xs = Inr NO_DATA" if "\<forall>x\<in>set xs. \<not> recognized (normalize_license x)"
    using that by (rule get_highest_license_none)
  moreover have "\<exists>t. get_highest_license xs = Inr t \<and> recognized t \<and> t \<in> normalize_license ` set xs
           \<and> (\<forall>y\<in>set xs. priority_get (normalize_license y) 0 \<le> priority_get t 0)"
    if "\<exists>x\<in>set xs. recognized (normalize_license x)"
    using that get_highest_license_some by blast
  moreover have "get_highest_license ys = get_highest_license xs" if "set ys = set xs"
    using that by (rule get_highest_license_set)
  ultimately show ?thesis using get_highest_license_examples by blast
qed

text \<open>Two orders of one list give the same tier, and a list without tiers gives the sentinel.\<close>

theorem get_highest_license_highest_witness:
  "set [PStr (lit ''Functional''), PStr (lit ''professional ''), PStr (lit ''Productivity'')]
     = set [PStr (lit ''Productivity''), PStr (lit ''professional ''), PStr (lit ''Functional'')]
   \<and> (\<exists>x\<in>set [PStr (lit ''Productivity''), PStr (lit ''professional ''), PStr (lit ''Functional'')].
         recognized (normalize_license x))
   \<and> get_highest_license
        [PStr (lit ''Functional''), PStr (lit ''professional ''), PStr (lit ''Productivity'')]
       = get_highest_license
        [PStr (lit ''Productivity''), PStr (lit ''professional ''), PStr (lit ''Functional'')]
   \<and> (\<exists>t. get_highest_license
          [PStr (lit ''Productivity''), PStr (lit ''professional ''), PStr (lit ''Functional'')] = Inr t
        \<and> recognized t)
   \<and> \<not> recognized (normalize_license PNaN)
   \<and> \<not> recognized (normalize_license (PStr (lit ''No Data'')))
   \<and> get_highest_license [PNaN, PStr (lit ''No Data'')] = Inr NO_DATA"
proof -
  let ?xs = "[PStr (lit ''Productivity''), PStr (lit ''professional ''), PStr (lit ''Functional'')]"
  let ?ys = "[PStr (lit ''Functional''), PStr (lit ''professional ''), PStr (lit ''Productivity'')]"
  let ?zs = "[PNaN, PStr (lit ''No Data'')]"
  have s: "set ?ys = set ?xs" by auto
  have r: "\<exists>x\<in>set ?xs. recognized (normalize_license x)"
    by (simp add: normalize_license_examples recognized_examples)
  have n: "\<forall>x\<in>set ?zs. \<not> recognized (normalize_license x)"
    using normalize_license_examples(6) recognized_examples(4,6)
    by (simp add: normalize_license_def NO_DATA_def)
  from get_highest_license_highest[of ?xs ?ys] s r
  have a: "get_highest_license ?ys = get_highest_license ?xs"
    "\<exists>t. get_highest_license ?xs = Inr t \<and> recognized t" by blast+
  from get_highest_license_highest[of ?zs ?zs] n
  have b: "get_highest_license ?zs = Inr NO_DATA" by blast
  show ?thesis using s r n a b by simp
qed


text \<open>
  C7, as stated, fails outside Basic Latin: the text a, U+0130, b normalizes to A, i, U+0307, b,
  and normalizing that again capitalizes the b, because the combining dot is uncased while the
  letter it came from was cased.
\<close>

theorem normalize_license_not_idempotent:
  "normalize_license (normalize_license (PStr [97, 304, 98])) \<noteq> normalize_license (PStr [97, 304, 98])"
  by (simp add: normalize_license_def text_eval)

text \<open>
  C7, amended. \<open>normalize_license\<close> maps an absent value (\<open>None\<close>, NaN) to \<open>None\<close>, and
  is idempotent on every absent value and on every text of Basic Latin code points.
\<close>

theorem normalize_license_idempotent_latin:
  "normalize_license PNone = PNone \<and> normalize_license PNaN = PNone
   \<and> (isna x \<longrightarrow> normalize_license x = PNone)
   \<and> (isna x \<or> basic_latin (py_str x) \<longrightarrow>
        normalize_license (normalize_license x) = normalize_license x)"
proof (cases x)
  case (PStr s)
  then show ?thesis by (simp add: normalize_license_def normalize_text_latin_idem)
qed (simp_all add: normalize_license_def)

text \<open>Idempotence at a Basic Latin text with stray case and blanks, and at NaN.\<close>

theorem normalize_license_idempotent_latin_witness:
  "basic_latin (py_str (PStr (lit '' proFESSional  '')))
   \<and> normalize_license (PStr (lit '' proFESSional  '')) = PStr (lit ''Professional'')
   \<and> normalize_license (normalize_license (PStr (lit '' proFESSional  '')))
       = normalize_license (PStr (lit '' proFESSional  ''))
   \<and> isna PNaN \<and> normalize_license PNaN = PNone
   \<and> normalize_license (normalize_license PNaN) = normalize_license PNaN"
proof -
  have b: "basic_latin (py_str (PStr (lit '' proFESSional  '')))"
    by (simp add: basic_latin_def lit_def)
  show ?thesis
    using b normalize_license_idempotent_latin[of "PStr (lit '' proFESSional  '')"]
      normalize_license_idempotent_latin[of PNaN] normalize_license_examples(4)
    by simp
qed

text \<open>
  C9. For every input list \<open>get_highest_license\<close> returns "No Data", "Productivity",
  "Functional" or "Professional", and nothing else: no failure, and no raw or unrecognized value.
\<close>

theorem get_highest_license_closed_set:
  "get_highest_license xs \<in> {Inr NO_DATA, Inr (PStr (lit ''Productivity'')),
     Inr (PStr (lit ''Functional'')), Inr (PStr (lit ''Professional''))}"
  by (rule get_highest_license_range)

text \<open>A list with an unknown label, an empty text, both absent values and a lower-case tier.\<close>

theorem get_highest_license_closed_set_witness:
  "get_highest_license [PStr (lit ''sap_all''), PStr [], PNone, PNaN, PStr (lit ''functional'')]
     \<in> {Inr NO_DATA, Inr (PStr (lit ''Productivity'')),
         Inr (PStr (lit ''Functional'')), Inr (PStr (lit ''Professional''))}"
  by (rule get_highest_license_closed_set)

text \<open>
  C10. When both arguments normalize to recognized tiers, \<open>determine_status\<close> returns
  Optimized, Over-Licensed or Under-Licensed and never Review, because two recognized tiers of
  equal rank are the same tier.
\<close>

theorem review_unreachable_for_recognized:
  assumes "recognized (normalize_license c)" "recognized (normalize_license r)"
  shows "determine_status c r \<in> {OPTIMIZED, OVER_LICENSED, UNDER_LICENSED}
         \<and> determine_status c r \<noteq> REVIEW
         \<and> (priority_get (normalize_license c) 0 = priority_get (normalize_license r) 0
              \<longrightarrow> normalize_license c = normalize_license r)"
proof -
  have inj: "normalize_license c = normalize_license r"
    if "priority_get (normalize_license c) 0 = priority_get (normalize_license r) 0"
    using assms that by (rule recognized_priority_inj)
  then have "determine_status c r \<in> {OPTIMIZED, OVER_LICENSED, UNDER_LICENSED}"
    by (auto simp: determine_status_def Let_def)
  moreover have "REVIEW \<notin> {OPTIMIZED, OVER_LICENSED, UNDER_LICENSED}"
    using status_texts_distinct by auto
  ultimately show ?thesis using inj by auto
qed

text \<open>A lower-case Functional against a carelessly written Professional.\<close>

theorem review_unreachable_for_recognized_witness:
  "recognized (normalize_license (PStr (lit ''functional'')))
   \<and> recognized (normalize_license (PStr (lit '' proFESSional  '')))
   \<and> determine_status (PStr (lit ''functional'')) (PStr (lit '' proFESSional  '')) \<noteq> REVIEW
   \<and> determine_status (PStr (lit ''functional'')) (PStr (lit '' proFESSional  '')) = UNDER_LICENSED"
proof -
  have a: "recognized (normalize_license (PStr (lit ''functional'')))"
    and b: "recognized (normalize_license (PStr (lit '' proFESSional  '')))"
    by (simp_all add: normalize_license_examples recognized_examples)
  have "PStr (lit ''Functional'') \<noteq> PStr (lit ''Professional'')" by (simp add: lit_def)
  then have "determine_status (PStr (lit ''functional'')) (PStr (lit '' proFESSional  '')) = UNDER_LICENSED"
    by (simp add: determine_status_def normalize_license_examples priority_get_examples)
  then show ?thesis using a b review_unreachable_for_recognized[OF a b] by simp
qed

text \<open>
  C4, as stated, fails when a key occurs more than once in the catalog. On the sample sheets
  the three activity records of Bob carry Professional once and Functional twice, but the record
  with Professional is merged with three catalog rows, so both modes report Professional as his
  current license, which is not a most frequent value of his records.
\<close>

theorem current_license_not_mode_of_activity_records:
  "run sample_users sample_master PNone = Inr (sample_view, sample_report)
   \<and> sample_bob \<in> set sample_report
   \<and> r_User_Name sample_bob = PStr (lit ''Bob'')
   \<and> r_Current_License sample_bob = PStr (lit ''Professional'')
   \<and> v_selected_user sample_view = PStr (lit ''Bob'')
   \<and> v_current_license sample_view = PStr (lit ''Professional'')
   \<and> assigned_licenses sample_users (lit ''Bob'')
       = [lit ''Professional'', lit ''Functional'', lit ''Functional'']
   \<and> count_list (assigned_licenses sample_users (lit ''Bob'')) (lit ''Professional'') = 1
   \<and> count_list (assigned_licenses sample_users (lit ''Bob'')) (lit ''Functional'') = 2
   \<and> \<not> most_frequent (assigned_licenses sample_users (lit ''Bob'')) (lit ''Professional'')"
proof -
  have ne: "lit ''Functional'' \<noteq> lit ''Professional''" by (simp add: lit_def)
  then have c: "count_list (assigned_licenses sample_users (lit ''Bob'')) (lit ''Professional'') = 1"
    "count_list (assigned_licenses sample_users (lit ''Bob'')) (lit ''Functional'') = 2"
    unfolding sample_assigned by auto
  have "lit ''Functional'' \<in> set (assigned_licenses sample_users (lit ''Bob''))"
    unfolding sample_assigned by simp
  then have "\<not> most_frequent (assigned_licenses sample_users (lit ''Bob'')) (lit ''Professional'')"
    unfolding most_frequent_def using c by fastforce
  then show ?thesis using sample_run sample_rows_in_report sample_assigned c by simp
qed

text \<open>
  C4, amended. In the report of the bulk mode and in the view of the manual mode, the current
  license of a user is taken over the rows of the user in the merged frame, where an activity
  record counts once for each catalog row with its key: it is the least, in the order of texts,
  of the values of \<open>License\<close> that occur most often among those present, and "Not Assigned"
  when the sheet has no column \<open>License\<close> or no row of the user has a value. When no key
  occurs twice in the normalized catalog these values are those of the activity records of the
  user.
\<close>

theorem current_license_is_mode_of_joined_rows:
  "((bulk_mode (merged_of df_users df_license_master) = Inr report \<and> r \<in> set report
       \<and> r_User_Name r = PStr name \<and> r_Current_License r = current)
     \<or> (manual_mode (merged_of df_users df_license_master) choice = Inr view
       \<and> v_selected_user view = PStr name \<and> v_current_license view = current)
    \<longrightarrow> (let joined = texts (map License
                          (user_rows (f_rows (merged_of df_users df_license_master)) name))
         in if u_has_License df_users \<and> joined \<noteq> []
            then \<exists>m. current = PStr m \<and> most_frequent joined m
                   \<and> (\<forall>y. most_frequent joined y \<longrightarrow> m \<le> y)
            else current = NOT_ASSIGNED))
   \<and> (distinct (map m_Tcode (normalized_master df_license_master)) \<longrightarrow>
        texts (map License (user_rows (f_rows (merged_of df_users df_license_master)) name))
          = assigned_licenses df_users name)"
proof -
  let ?m = "merged_of df_users df_license_master"
  let ?joined = "texts (map License (user_rows (f_rows ?m) name))"
  have lic: "f_has_License ?m = u_has_License df_users" by (simp add: merged_of_def)
  have cur: "current = current_license_of (u_has_License df_users) (user_rows (f_rows ?m) name)"
    if "(bulk_mode ?m = Inr report \<and> r \<in> set report \<and> r_User_Name r = PStr name
          \<and> r_Current_License r = current)
        \<or> (manual_mode ?m choice = Inr view \<and> v_selected_user view = PStr name
          \<and> v_current_license view = current)"
    using that bulk_row_current[of ?m report r name] manual_view_current[of ?m choice view name]
    by (auto simp: lic)
  have mode: "if u_has_License df_users \<and> ?joined \<noteq> []
        then \<exists>m. current_license_of (u_has_License df_users) (user_rows (f_rows ?m) name) = PStr m
               \<and> most_frequent ?joined m \<and> (\<forall>y. most_frequent ?joined y \<longrightarrow> m \<le> y)
        else current_license_of (u_has_License df_users) (user_rows (f_rows ?m) name) = NOT_ASSIGNED"
    using current_license_of_mode[of "u_has_License df_users" "user_rows (f_rows ?m) name"]
      current_license_of_absent[of "u_has_License df_users" "user_rows (f_rows ?m) name"]
    by auto
  have pre: "?joined = assigned_licenses df_users name"
    if "distinct (map m_Tcode (normalized_master df_license_master))"
    using merged_unique_keys_licenses[OF that, of df_users name]
    by (simp add: assigned_licenses_def texts_dropna)
  have "let joined = ?joined
        in if u_has_License df_users \<and> joined \<noteq> []
           then \<exists>m. current = PStr m \<and> most_frequent joined m
                  \<and> (\<forall>y. most_frequent joined y \<longrightarrow> m \<le> y)
           else current = NOT_ASSIGNED"
    if p: "(bulk_mode ?m = Inr report \<and> r \<in> set report \<and> r_User_Name r = PStr name
          \<and> r_Current_License r = current)
        \<or> (manual_mode ?m choice = Inr view \<and> v_selected_user view = PStr name
          \<and> v_current_license view = current)"
    unfolding cur[OF p] Let_def by (rule mode)
  then show ?thesis using pre by blast
qed


text \<open>Bob on the sample sheets, with the repeated key and without.\<close>

theorem current_license_is_mode_of_joined_rows_witness:
  "bulk_mode (merged_of sample_users sample_master) = Inr sample_report
   \<and> sample_bob \<in> set sample_report \<and> r_User_Name sample_bob = PStr (lit ''Bob'')
   \<and> u_has_License sample_users
   \<and> texts (map License (user_rows (f_rows (merged_of sample_users sample_master)) (lit ''Bob'')))
       = [lit ''Professional'', lit ''Professional'', lit ''Professional'', lit ''Functional'',
          lit ''Functional'']
   \<and> (\<exists>m. r_Current_License sample_bob = PStr m
          \<and> most_frequent [lit ''Professional'', lit ''Professional'', lit ''Professional'',
               lit ''Functional'', lit ''Functional''] m)
   \<and> distinct (map m_Tcode (normalized_master sample_master_unique))
   \<and> texts (map License
        (user_rows (f_rows (merged_of sample_users sample_master_unique)) (lit ''Bob'')))
       = assigned_licenses sample_users (lit ''Bob'')"
proof -
  have h: "u_has_License sample_users" by (simp add: sample_users_def)
  have j: "texts (map License (user_rows (f_rows (merged_of sample_users sample_master)) (lit ''Bob'')))
       = [lit ''Professional'', lit ''Professional'', lit ''Professional'', lit ''Functional'',
          lit ''Functional'']"
    unfolding sample_merged_rows sample_bob_licenses by simp
  have d: "distinct (map m_Tcode (normalized_master sample_master_unique))"
    by (simp add: sample_master_unique_def normalized_master_def normalize_tcode_def text_eval)
  from current_license_is_mode_of_joined_rows[of sample_users sample_master sample_report
      sample_bob "lit ''Bob''" "r_Current_License sample_bob" PNone sample_view]
    sample_bulk sample_rows_in_report(1,2) h j
  have "\<exists>m. r_Current_License sample_bob = PStr m
          \<and> most_frequent [lit ''Professional'', lit ''Professional'', lit ''Professional'',
               lit ''Functional'', lit ''Functional''] m"
    by (auto simp: Let_def)
  moreover from current_license_is_mode_of_joined_rows[of sample_users sample_master_unique
      sample_report sample_bob "lit ''Bob''" "r_Current_License sample_bob" PNone sample_view] d
  have "texts (map License
        (user_rows (f_rows (merged_of sample_users sample_master_unique)) (lit ''Bob'')))
       = assigned_licenses sample_users (lit ''Bob'')" by blast
  ultimately show ?thesis using sample_bulk sample_rows_in_report(1,2) h j d by blast
qed

text \<open>
  C3. The merge is a left outer join: its result is at least as long as the user sheet, every
  activity record is the user part of at least as many merged rows as it has occurrences, and a
  record whose key no catalog row has occurs exactly as often as in the user sheet, each time
  with the tier and the description missing. The merged frame of the script is this merge of the
  normalized sheets.
\<close>

theorem merge_left_keeps_every_activity_row:
  "length left \<le> length (merge_left left right)
   \<and> count_list left a \<le> count_list (map user_part (merge_left left right)) a
   \<and> (filter (\<lambda>m. m_Tcode m = Tcode a) right = [] \<longrightarrow>
        count_list (map user_part (merge_left left right)) a = count_list left a
        \<and> (\<forall>g\<in>set (merge_left left right).
              user_part g = a \<longrightarrow> License_Type g = PNaN \<and> Description g = PNaN))
   \<and> f_rows (merged_of df_users df_license_master)
       = merge_left (normalized_users df_users) (normalized_master df_license_master)
   \<and> length (u_rows df_users) \<le> length (f_rows (merged_of df_users df_license_master))"
proof -
  have "length (u_rows df_users) = length (normalized_users df_users)"
    by (simp add: normalized_users_def)
  then have "length (u_rows df_users) \<le> length (f_rows (merged_of df_users df_license_master))"
    using length_merge_left[of "normalized_users df_users" "normalized_master df_license_master"]
    by (simp add: merged_of_def)
  then show ?thesis
    using length_merge_left[of left right] count_merge_left_ge[of left a right]
      count_merge_left_unmatched[of a right left] merge_left_unmatched_cells[of a right _ left]
    by (auto simp: merged_of_def)
qed

text \<open>The record of Bob with the key FB60, which the sample catalog does not have.\<close>

theorem merge_left_keeps_every_activity_row_witness:
  "filter (\<lambda>m. m_Tcode m = PStr (lit ''FB60'')) (normalized_master sample_master) = []
   \<and> count_list (normalized_users sample_users)
        \<lparr>Tcode = PStr (lit ''FB60''), User_Name = PStr (lit ''Bob''), User_ID = PStr (lit ''U2''),
         License = PStr (lit ''Functional'')\<rparr> = 1
   \<and> count_list (map user_part (f_rows (merged_of sample_users sample_master)))
        \<lparr>Tcode = PStr (lit ''FB60''), User_Name = PStr (lit ''Bob''), User_ID = PStr (lit ''U2''),
         License = PStr (lit ''Functional'')\<rparr> = 1
   \<and> length (u_rows sample_users) = 4
   \<and> length (f_rows (merged_of sample_users sample_master)) = 6"
proof -
  let ?a = "\<lparr>Tcode = PStr (lit ''FB60''), User_Name = PStr (lit ''Bob''), User_ID = PStr (lit ''U2''),
         License = PStr (lit ''Functional'')\<rparr>"
  have f: "filter (\<lambda>m. m_Tcode m = PStr (lit ''FB60'')) (normalized_master sample_master) = []"
    by (simp add: sample_master_def normalized_master_def normalize_tcode_def text_eval)
  have c: "count_list (normalized_users sample_users) ?a = 1"
    by (simp add: sample_users_def normalized_users_def normalize_tcode_def text_eval)
  have l: "length (u_rows sample_users) = 4"
    "length (f_rows (merged_of sample_users sample_master)) = 6"
    unfolding sample_merged_rows by (simp_all add: sample_users_def sample_merged_def)
  from merge_left_keeps_every_activity_row[of "normalized_users sample_users"
      "normalized_master sample_master" ?a sample_users sample_master] f c
  have "count_list (map user_part (f_rows (merged_of sample_users sample_master))) ?a = 1"
    by simp
  then show ?thesis using f c l by simp
qed

text \<open>
  C8. When the user sheet has the column \<open>User Name\<close>, the bulk mode produces a report whose
  user names are the names present in the user sheet, each once, in sorted order; so it has as
  many rows as there are distinct names. A report the script returns is this report, and the
  script returns it when the checked columns exist and some name is present.
\<close>

theorem bulk_report_one_row_per_user:
  assumes "u_has_User_Name df_users"
  shows "\<exists>report. bulk_mode (merged_of df_users df_license_master) = Inr report
     \<and> map r_User_Name report
         = map PStr (sort (remdups (texts (map User_Name (u_rows df_users)))))
     \<and> distinct (map r_User_Name report)
     \<and> sorted (texts (map r_User_Name report))
     \<and> length report = card {n. PStr n \<in> User_Name ` set (u_rows df_users)}
     \<and> (\<forall>view report'. run df_users df_license_master choice = Inr (view, report')
            \<longrightarrow> report' = report)
     \<and> (u_has_Tcode df_users \<and> m_has_Tcode df_license_master
          \<and> m_has_License_Type df_license_master
          \<and> texts (map User_Name (u_rows df_users)) \<noteq> []
         \<longrightarrow> (\<exists>view. run df_users df_license_master choice = Inr (view, report)))"
proof -
  let ?m = "merged_of df_users df_license_master"
  let ?names = "sort (remdups (texts (map User_Name (u_rows df_users))))"
  have has: "f_has_User_Name ?m" using assms by (simp add: merged_of_def)
  from bulk_mode_report[OF has] obtain report where
    r: "bulk_mode ?m = Inr report"
       "list_all2 (assessed ?m) (map (\<lambda>k. (k, user_rows (f_rows ?m) k)) (group_keys (f_rows ?m))) report"
    by blast
  have keys: "group_keys (f_rows ?m) = ?names"
  proof -
    have "group_keys (f_rows ?m) = group_keys (map (\<lambda>u. join_cells u PNaN PNaN) (u_rows df_users))"
      by (rule group_keys_cong) (simp add: merged_user_names image_image join_cells_def)
    also have "\<dots> = ?names"
      by (simp add: group_keys_def texts_dropna comp_def join_cells_def)
    finally show ?thesis .
  qed
  have n: "map r_User_Name report = map PStr ?names"
    using report_names[OF r(2)] keys by simp
  have d: "distinct (map r_User_Name report)"
    unfolding n by (simp add: distinct_map inj_on_def)
  have s: "sorted (texts (map r_User_Name report))"
    unfolding n texts_map_PStr by simp
  have "length report = length ?names" using n by (metis length_map)
  also have "\<dots> = card (set (texts (map User_Name (u_rows df_users))))"
    by (simp add: length_remdups_card_conv)
  also have "\<dots> = card {n. PStr n \<in> User_Name ` set (u_rows df_users)}"
    by (simp add: set_texts)
  finally have c: "length report = card {n. PStr n \<in> User_Name ` set (u_rows df_users)}" .
  have u: "report' = report" if "run df_users df_license_master choice = Inr (view, report')"
    for view report'
    using run_report[OF that] r(1) by simp
  have e: "\<exists>view. run df_users df_license_master choice = Inr (view, report)"
    if "u_has_Tcode df_users \<and> m_has_Tcode df_license_master
          \<and> m_has_License_Type df_license_master
          \<and> texts (map User_Name (u_rows df_users)) \<noteq> []"
  proof -
    obtain view where v: "manual_mode ?m choice = Inr view"
      using manual_mode_total[OF has] by blast
    have "?names \<noteq> []" using that by (metis length_0_conv length_sort remdups_eq_nil_iff)
    then have "report \<noteq> []" using n by auto
    then show ?thesis using that v r(1) by (simp add: run_def)
  qed
  show ?thesis using r(1) n d s c u e by blast
qed

text \<open>The sample sheets: Bob comes first in the sheet, Alice first in the report.\<close>

theorem bulk_report_one_row_per_user_witness:
  "u_has_User_Name sample_users
   \<and> bulk_mode (merged_of sample_users sample_master) = Inr sample_report
   \<and> map r_User_Name sample_report = [PStr (lit ''Alice''), PStr (lit ''Bob'')]
   \<and> sort (remdups (texts (map User_Name (u_rows sample_users)))) = [lit ''Alice'', lit ''Bob'']
   \<and> length sample_report = 2
   \<and> card {n. PStr n \<in> User_Name ` set (u_rows sample_users)} = 2
   \<and> run sample_users sample_master PNone = Inr (sample_view, sample_report)"
proof -
  have h: "u_has_User_Name sample_users" by (simp add: sample_users_def)
  have k: "sort (remdups (texts (map User_Name (u_rows sample_users)))) = [lit ''Alice'', lit ''Bob'']"
    by (simp add: sample_users_def lit_def)
  from bulk_report_one_row_per_user[OF h, of sample_master PNone] sample_bulk k
  have "map r_User_Name sample_report = [PStr (lit ''Alice''), PStr (lit ''Bob'')]"
    "length sample_report = card {n. PStr n \<in> User_Name ` set (u_rows sample_users)}"
    by auto
  moreover have "length sample_report = 2" by (simp add: sample_report_def)
  ultimately show ?thesis using h k sample_bulk sample_run by simp
qed

text \<open>
  C5. A missing \<open>Tcode\<close> column in either sheet and a missing \<open>License Type\<close> column in
  the catalog stop the script with their messages. A missing \<open>User Name\<close> column passes both
  checks; the script then fails in the manual mode with the \<open>KeyError\<close> of the column
  access, not with a message of its own.
\<close>

theorem missing_columns:
  "(\<not> u_has_Tcode df_users \<or> \<not> m_has_Tcode df_license_master \<longrightarrow>
      run df_users df_license_master choice = Inl (Stop TCODE_MISSING))
   \<and> (u_has_Tcode df_users \<and> m_has_Tcode df_license_master
        \<and> \<not> m_has_License_Type df_license_master \<longrightarrow>
      run df_users df_license_master choice = Inl (Stop LICENSE_TYPE_MISSING))
   \<and> (u_has_Tcode df_users \<and> m_has_Tcode df_license_master
        \<and> m_has_License_Type df_license_master \<and> \<not> u_has_User_Name df_users \<longrightarrow>
      run df_users df_license_master choice = Inl (KeyError (PStr (lit ''User Name'')))
      \<and> (\<forall>message. run df_users df_license_master choice \<noteq> Inl (Stop message)))"
  by (auto simp: run_def Let_def merged_of_def manual_mode_no_column)

text \<open>The sample sheets with one column removed at a time.\<close>

theorem missing_columns_witness:
  "u_has_Tcode (sample_users\<lparr>u_has_User_Name := False\<rparr>) \<and> m_has_Tcode sample_master
   \<and> m_has_License_Type sample_master \<and> \<not> u_has_User_Name (sample_users\<lparr>u_has_User_Name := False\<rparr>)
   \<and> run (sample_users\<lparr>u_has_User_Name := False\<rparr>) sample_master PNone
       = Inl (KeyError (PStr (lit ''User Name'')))
   \<and> run (sample_users\<lparr>u_has_Tcode := False\<rparr>) sample_master PNone = Inl (Stop TCODE_MISSING)
   \<and> run sample_users (sample_master\<lparr>m_has_License_Type := False\<rparr>) PNone
       = Inl (Stop LICENSE_TYPE_MISSING)"
proof -
  have h: "u_has_Tcode (sample_users\<lparr>u_has_User_Name := False\<rparr>)" "m_has_Tcode sample_master"
    "m_has_License_Type sample_master" "\<not> u_has_User_Name (sample_users\<lparr>u_has_User_Name := False\<rparr>)"
    "\<not> u_has_Tcode (sample_users\<lparr>u_has_Tcode := False\<rparr>)"
    "u_has_Tcode sample_users" "m_has_Tcode (sample_master\<lparr>m_has_License_Type := False\<rparr>)"
    "\<not> m_has_License_Type (sample_master\<lparr>m_has_License_Type := False\<rparr>)"
    by (simp_all add: sample_users_def sample_master_def)
  show ?thesis
    using h missing_columns[of "sample_users\<lparr>u_has_User_Name := False\<rparr>" sample_master PNone]
      missing_columns[of "sample_users\<lparr>u_has_Tcode := False\<rparr>" sample_master PNone]
      missing_columns[of sample_users "sample_master\<lparr>m_has_License_Type := False\<rparr>" PNone]
    by simp
qed

end
